theory Spec2Isabelle
  imports Complex_Main
begin

section \<open>The spreadsheet model of \<^verbatim>\<open>model.c\<close>\<close>

text \<open>
  The theory embeds the cell store, the two text classifiers, the formula evaluator and the
  write, clear and read operations of \<^verbatim>\<open>model.c\<close>. Three things the file
  takes from outside are parameters of the embedding, collected in the record \<open>env\<close>:
  \<^item> the grid dimensions \<^verbatim>\<open>NUM_ROWS\<close> and \<^verbatim>\<open>NUM_COLS\<close> and the type
    \<^verbatim>\<open>ROW\<close>, declared in \<^verbatim>\<open>model.h\<close>;
  \<^item> the arithmetic of \<^verbatim>\<open>double\<close>: the constant 0, addition, the value
    \<^verbatim>\<open>strtod\<close> gives to a numeral and the text \<^verbatim>\<open>snprintf("%lg")\<close> gives
    to a value. The type of doubles is the type variable \<open>'d\<close>;
  \<^item> \<^verbatim>\<open>LONG_MAX\<close>, at which \<^verbatim>\<open>strtol\<close> saturates.

  A C string is modelled by the list of its characters before the terminating NUL, a
  \<^verbatim>\<open>char *\<close> that may be \<^verbatim>\<open>NULL\<close> by \<open>string option\<close>. The calls of
  \<^verbatim>\<open>update_cell_display\<close> (declared in \<^verbatim>\<open>interface.h\<close>) are recorded, in order, in
  the \<open>display\<close> component of the state. Allocation is assumed to succeed, and
  \<^verbatim>\<open>free\<close> is not modelled.
\<close>

subsection \<open>Character classes (\<^verbatim>\<open>ctype.h\<close>, "C" locale)\<close>

definition isspace :: "char \<Rightarrow> bool" where
  "isspace c = (c = CHR '' '' \<or> (9 \<le> (of_char c :: nat) \<and> (of_char c :: nat) \<le> 13))"

definition isdigit :: "char \<Rightarrow> bool" where
  "isdigit c = (48 \<le> (of_char c :: nat) \<and> (of_char c :: nat) \<le> 57)"

definition isupper :: "char \<Rightarrow> bool" where
  "isupper c = (65 \<le> (of_char c :: nat) \<and> (of_char c :: nat) \<le> 90)"

definition islower :: "char \<Rightarrow> bool" where
  "islower c = (97 \<le> (of_char c :: nat) \<and> (of_char c :: nat) \<le> 122)"

definition isalpha :: "char \<Rightarrow> bool" where
  "isalpha c = (isupper c \<or> islower c)"

definition isxdigit :: "char \<Rightarrow> bool" where
  "isxdigit c = (isdigit c \<or> (65 \<le> (of_char c :: nat) \<and> (of_char c :: nat) \<le> 70)
     \<or> (97 \<le> (of_char c :: nat) \<and> (of_char c :: nat) \<le> 102))"

subsection \<open>Cells and the environment\<close>

datatype CELL_TYPE = none | str | num | eqn

record 'd cell =
  type :: CELL_TYPE
  numVal :: 'd
  strVal :: "string option"

record 'd env =
  NUM_ROWS :: nat
  NUM_COLS :: nat
  LONG_MAX :: int
  ROW_of_long :: "int \<Rightarrow> int"
  dzero :: 'd
  dadd :: "'d \<Rightarrow> 'd \<Rightarrow> 'd"
  strtod_val :: "string \<Rightarrow> 'd"
  lg_format :: "'d \<Rightarrow> string"

text \<open>
  \<open>ROW_of_long\<close> is the conversion of a \<^verbatim>\<open>long\<close> to the type \<^verbatim>\<open>ROW\<close>
  (line 279); \<open>strtod_val\<close> is the value of a subject sequence recognised by
  \<^verbatim>\<open>strtod\<close>. An environment is usable when the rows of the grid are representable: row
  numbers do not saturate \<^verbatim>\<open>strtol\<close> and survive the conversion to \<^verbatim>\<open>ROW\<close>.
\<close>

definition env_ok :: "'d env \<Rightarrow> bool" where
  "env_ok env = (int (NUM_ROWS env) \<le> LONG_MAX env \<and>
     (\<forall>n < NUM_ROWS env. ROW_of_long env (int n) = int n))"

record 'd state =
  sheet :: "nat \<Rightarrow> nat \<Rightarrow> 'd cell"
  display :: "(nat \<times> nat \<times> string) list"

text \<open>All cells start zeroed (line 116): type \<open>none\<close>, value 0, no string.\<close>

definition init_state :: "'d env \<Rightarrow> 'd state" where
  "init_state env =
     \<lparr>sheet = (\<lambda>i j. \<lparr>type = none, numVal = dzero env, strVal = None\<rparr>), display = []\<rparr>"

definition put_cell :: "'d state \<Rightarrow> nat \<Rightarrow> nat \<Rightarrow> 'd cell \<Rightarrow> 'd state" where
  "put_cell st row col c = st\<lparr>sheet := (sheet st)(row := (sheet st row)(col := c))\<rparr>"

definition update_cell_display :: "'d state \<Rightarrow> nat \<Rightarrow> nat \<Rightarrow> string \<Rightarrow> 'd state" where
  "update_cell_display st row col text = st\<lparr>display := display st @ [(row, col, text)]\<rparr>"

subsection \<open>The classifiers\<close>

fun skip_whitespace :: "string \<Rightarrow> string" where
  "skip_whitespace [] = []"
| "skip_whitespace (c # cs) = (if isspace c then skip_whitespace cs else c # cs)"

text \<open>The loop of \<^verbatim>\<open>is_valid_num\<close> (lines 139-153) with its two flags.\<close>

fun num_scan :: "string \<Rightarrow> bool \<Rightarrow> bool \<Rightarrow> bool" where
  "num_scan [] hasDigit hasDecimalPoint = hasDigit"
| "num_scan (c # cs) hasDigit hasDecimalPoint =
     (if isdigit c then num_scan cs True hasDecimalPoint
      else if c = CHR ''.'' then
        (if hasDecimalPoint then False else num_scan cs hasDigit True)
      else False)"

definition is_valid_num :: "string option \<Rightarrow> bool" where
  "is_valid_num text =
     (case text of None \<Rightarrow> False | Some s \<Rightarrow> num_scan (skip_whitespace s) False False)"

text \<open>
  The loop of \<^verbatim>\<open>is_valid_formula\<close> (lines 172-191): each round skips white space and
  then checks one character, which is the terminating NUL when only white space was left.
\<close>

function formula_scan :: "string \<Rightarrow> bool" where
  "formula_scan [] = True"
| "formula_scan (c # cs) =
     (case skip_whitespace (c # cs) of
        [] \<Rightarrow> False
      | d # ds \<Rightarrow>
          if isalpha d then (if islower d then False else formula_scan ds)
          else if isdigit d \<or> d = CHR ''.'' \<or> d = CHR ''+'' then formula_scan ds
          else False)"
  by pat_completeness auto
termination
proof -
  have shorter: "length (skip_whitespace s) \<le> length s" for s
    by (induction s) auto
  have step: "length ds < Suc (length cs)" if "skip_whitespace (c # cs) = d # ds"
    for c :: char and cs d ds
    using shorter [of "c # cs"] that by (simp del: skip_whitespace.simps)
  show ?thesis
    by (relation "measure length") (auto simp del: skip_whitespace.simps dest: step)
qed

definition is_valid_formula :: "string \<Rightarrow> bool" where
  "is_valid_formula formula =
     (case skip_whitespace formula of
        [] \<Rightarrow> False
      | c # rest \<Rightarrow> if c \<noteq> CHR ''='' then False else formula_scan rest)"

subsection \<open>\<^verbatim>\<open>strtol\<close> and \<^verbatim>\<open>strtod\<close>\<close>

definition decimal_value :: "string \<Rightarrow> int" where
  "decimal_value ds = foldl (\<lambda>v c. 10 * v + (int (of_char c) - 48)) 0 ds"

text \<open>
  \<^verbatim>\<open>strtol(s, &s, 10)\<close> where it is called (line 279): the guard of line 268 has seen a
  digit at \<open>s\<close>, so no white space or sign is skipped. The result saturates at
  \<^verbatim>\<open>LONG_MAX\<close>.
\<close>

definition strtol :: "'d env \<Rightarrow> string \<Rightarrow> int \<times> string" where
  "strtol env s = (min (decimal_value (takeWhile isdigit s)) (LONG_MAX env), dropWhile isdigit s)"

text \<open>
  The length of the subject sequence of \<^verbatim>\<open>strtod\<close> (C99 7.20.1.3) in a text that starts
  with a digit or a point, which is what both call sites pass (line 289; line 206 after
  \<^verbatim>\<open>is_valid_num\<close>): a decimal or hexadecimal mantissa with at least one digit, then an
  optional exponent. No sign, \<^verbatim>\<open>INF\<close> or \<^verbatim>\<open>NAN\<close> form starts with such a character.
\<close>

definition mantissa_len :: "(char \<Rightarrow> bool) \<Rightarrow> string \<Rightarrow> nat" where
  "mantissa_len dig s =
     (let a = length (takeWhile dig s) in
      case drop a s of
        [] \<Rightarrow> a
      | c # u \<Rightarrow>
          if c = CHR ''.'' then
            (let b = length (takeWhile dig u) in if a = 0 \<and> b = 0 then 0 else a + 1 + b)
          else a)"

definition exponent_len :: "char \<Rightarrow> char \<Rightarrow> string \<Rightarrow> nat" where
  "exponent_len lo up s =
     (case s of
        [] \<Rightarrow> 0
      | c # t \<Rightarrow>
          if c = lo \<or> c = up then
            (let sg = (case t of [] \<Rightarrow> 0 | d # _ \<Rightarrow> if d = CHR ''+'' \<or> d = CHR ''-'' then 1 else 0);
                 k = length (takeWhile isdigit (drop sg t))
             in if k = 0 then 0 else 1 + sg + k)
          else 0)"

definition decimal_len :: "string \<Rightarrow> nat" where
  "decimal_len s =
     (let m = mantissa_len isdigit s in
      if m = 0 then 0 else m + exponent_len (CHR ''e'') (CHR ''E'') (drop m s))"

definition hex_len :: "string \<Rightarrow> nat" where
  "hex_len s =
     (case s of
        z # x # t \<Rightarrow>
          if z = CHR ''0'' \<and> (x = CHR ''x'' \<or> x = CHR ''X'') then
            (let m = mantissa_len isxdigit t in
             if m = 0 then 0 else 2 + m + exponent_len (CHR ''p'') (CHR ''P'') (drop m t))
          else 0
      | _ \<Rightarrow> 0)"

definition strtod_len :: "string \<Rightarrow> nat" where
  "strtod_len s = (if hex_len s \<noteq> 0 then hex_len s else decimal_len s)"

text \<open>
  \<^verbatim>\<open>strtod(text, &end)\<close>: the value and the rest of the text. When no conversion can be
  made the value is 0 and the text is returned where it started.
\<close>

definition strtod :: "'d env \<Rightarrow> string \<Rightarrow> 'd \<times> string" where
  "strtod env text =
     (let s = skip_whitespace text; n = strtod_len s in
      if n = 0 then (dzero env, text) else (strtod_val env (take n s), drop n s))"

subsection \<open>Writing one cell\<close>

definition set_num_value :: "'d env \<Rightarrow> 'd state \<Rightarrow> nat \<Rightarrow> nat \<Rightarrow> string \<Rightarrow> 'd state" where
  "set_num_value env st row col text =
     put_cell st row col \<lparr>type = num, numVal = fst (strtod env text), strVal = None\<rparr>"

definition set_string_value :: "'d env \<Rightarrow> 'd state \<Rightarrow> nat \<Rightarrow> nat \<Rightarrow> string \<Rightarrow> 'd state" where
  "set_string_value env st row col text =
     put_cell st row col \<lparr>type = str, numVal = dzero env, strVal = Some text\<rparr>"

definition initialize_cell :: "'d env \<Rightarrow> 'd state \<Rightarrow> nat \<Rightarrow> nat \<Rightarrow> 'd state" where
  "initialize_cell env st row col =
     (if type (sheet st row col) \<noteq> none then st
      else put_cell st row col \<lparr>type = num, numVal = dzero env, strVal = Some ''''\<rparr>)"

subsection \<open>The formula evaluator\<close>

text \<open>
  \<^verbatim>\<open>parse_and_calculate_formula\<close> returns \<^verbatim>\<open>false\<close> at five places. The model says
  which one: the failed grammar check (line 248), a letter with no digit after it (line
  271) or another character (line 295), a reference outside the grid (line 284), and the
  operand count (line 302).
\<close>

datatype error = InvalidFormulaSyntax | InvalidToken | OutOfRange | ArityMismatch

text \<open>
  The scan loop (lines 258-297). The stack is a list with its top first; \<open>opcount\<close> is the
  number of \<^verbatim>\<open>+\<close> signs seen. The loop returns when the text is used up or a
  \<^verbatim>\<open>return false\<close> is reached. When \<^verbatim>\<open>strtod\<close> converts nothing (a point with no
  digit beside it) the text pointer does not move and the loop pushes zeros for ever: the
  result is \<open>None\<close>.
\<close>

partial_function (option) scan_formula ::
  "'d env \<Rightarrow> (nat \<Rightarrow> nat \<Rightarrow> 'd cell) \<Rightarrow> string \<Rightarrow> 'd list \<Rightarrow> nat \<Rightarrow> (error + 'd list \<times> nat) option"
where
  "scan_formula env sh formula stack opcount =
     (case formula of
        [] \<Rightarrow> Some (Inr (stack, opcount))
      | c # rest \<Rightarrow>
          if c = CHR ''='' \<or> c = CHR '' '' then scan_formula env sh rest stack opcount
          else if c = CHR ''+'' then scan_formula env sh rest stack (opcount + 1)
          else if isalpha c then
            (case rest of
               [] \<Rightarrow> Some (Inl InvalidToken)
             | d # _ \<Rightarrow>
                 if \<not> isdigit d then Some (Inl InvalidToken)
                 else
                   (let curCol = int (of_char c) - 65;
                        (v, rest') = strtol env rest;
                        curRow = ROW_of_long env (v - 1)
                    in if curRow < 0 \<or> int (NUM_ROWS env) \<le> curRow
                          \<or> curCol < 0 \<or> int (NUM_COLS env) \<le> curCol
                       then Some (Inl OutOfRange)
                       else scan_formula env sh rest'
                              (numVal (sh (nat curRow) (nat curCol)) # stack) opcount))
          else if isdigit c \<or> c = CHR ''.'' then
            (let (v, rest') = strtod env formula
             in scan_formula env sh rest' (v # stack) opcount)
          else Some (Inl InvalidToken))"

text \<open>Draining the stack into the result (lines 306-308).\<close>

fun drain :: "'d env \<Rightarrow> 'd list \<Rightarrow> 'd \<Rightarrow> 'd" where
  "drain env [] result = result"
| "drain env (x # stack) result = drain env stack (dadd env result x)"

definition parse_and_calculate_formula ::
  "'d env \<Rightarrow> (nat \<Rightarrow> nat \<Rightarrow> 'd cell) \<Rightarrow> string \<Rightarrow> (error + 'd) option"
where
  "parse_and_calculate_formula env sh formula =
     (if \<not> is_valid_formula formula then Some (Inl InvalidFormulaSyntax)
      else
        (case scan_formula env sh formula [] 0 of
           None \<Rightarrow> None
         | Some (Inl e) \<Rightarrow> Some (Inl e)
         | Some (Inr (stack, opcount)) \<Rightarrow>
             if length stack \<noteq> opcount + 1 then Some (Inl ArityMismatch)
             else Some (Inr (drain env stack (dzero env)))))"

subsection \<open>Recalculation and the public operations\<close>

text \<open>
  Reading through a null string pointer is undefined behaviour in C; the model makes it
  the fault \<open>NullRead\<close>. An operation yields \<open>None\<close> when it does not return,
  \<open>Some (Inl NullRead)\<close> when it faults, and \<open>Some (Inr st)\<close> when it returns with
  state \<open>st\<close>.
\<close>

datatype fault = NullRead

definition update_cell_value ::
  "'d env \<Rightarrow> 'd state \<Rightarrow> nat \<Rightarrow> nat \<Rightarrow> (fault + 'd state) option"
where
  "update_cell_value env st row col =
     (if type (sheet st row col) = eqn then
        (case strVal (sheet st row col) of
           None \<Rightarrow> Some (Inl NullRead)
         | Some f \<Rightarrow>
             (case parse_and_calculate_formula env (sheet st) f of
                None \<Rightarrow> None
              | Some (Inr result) \<Rightarrow>
                  Some (Inr (update_cell_display
                    (put_cell st row col ((sheet st row col)\<lparr>numVal := result, type := num\<rparr>))
                    row col f))
              | Some (Inl e) \<Rightarrow> Some (Inr (update_cell_display st row col ''ERROR''))))
      else Some (Inr st))"

text \<open>
  The loop nest of lines 372-378 visits the coordinates in row-major order and skips the
  written one.
\<close>

definition coords :: "'d env \<Rightarrow> (nat \<times> nat) list" where
  "coords env = List.product [0 ..< NUM_ROWS env] [0 ..< NUM_COLS env]"

fun update_cells ::
  "'d env \<Rightarrow> nat \<Rightarrow> nat \<Rightarrow> (nat \<times> nat) list \<Rightarrow> 'd state \<Rightarrow> (fault + 'd state) option"
where
  "update_cells env row col [] st = Some (Inr st)"
| "update_cells env row col ((i, j) # ps) st =
     (if \<not> (i = row \<and> j = col) then
        (case update_cell_value env st i j of
           Some (Inr st') \<Rightarrow> update_cells env row col ps st'
         | r \<Rightarrow> r)
      else update_cells env row col ps st)"

text \<open>Lines 371-381: recalculate the other cells, then notify the display of the written one.\<close>

definition finish_write ::
  "'d env \<Rightarrow> 'd state \<Rightarrow> nat \<Rightarrow> nat \<Rightarrow> string \<Rightarrow> (fault + 'd state) option"
where
  "finish_write env st row col text =
     (case update_cells env row col (coords env) st of
        Some (Inr st') \<Rightarrow> Some (Inr (update_cell_display st' row col text))
      | r \<Rightarrow> r)"

definition set_cell_value ::
  "'d env \<Rightarrow> 'd state \<Rightarrow> nat \<Rightarrow> nat \<Rightarrow> string option \<Rightarrow> (fault + 'd state) option"
where
  "set_cell_value env st row col text =
     (case text of
        None \<Rightarrow> Some (Inr st)
      | Some t \<Rightarrow>
          if t = [] then Some (Inr st)
          else
            (let st1 = (if type (sheet st row col) = none then initialize_cell env st row col
                        else st)
             in if is_valid_num (Some t) then
                  finish_write env (set_num_value env st1 row col t) row col t
                else
                  (let st2 = set_string_value env st1 row col t
                   in if is_valid_formula t then
                        (case parse_and_calculate_formula env (sheet st2) t of
                           None \<Rightarrow> None
                         | Some (Inr result) \<Rightarrow>
                             finish_write env
                               (put_cell st2 row col ((sheet st2 row col)\<lparr>type := eqn\<rparr>))
                               row col (lg_format env result)
                         | Some (Inl e) \<Rightarrow> finish_write env st2 row col ''ERROR'')
                      else finish_write env st2 row col t)))"

definition clear_cell :: "'d env \<Rightarrow> 'd state \<Rightarrow> nat \<Rightarrow> nat \<Rightarrow> 'd state" where
  "clear_cell env st row col =
     (if type (sheet st row col) = none then st
      else update_cell_display
             (put_cell st row col \<lparr>type = none, numVal = dzero env, strVal = None\<rparr>)
             row col '''')"

text \<open>
  \<^verbatim>\<open>get_textual_value\<close> copies at most \<^verbatim>\<open>MAX_LEN - 1\<close> = 255 characters of the
  cell's string for the types \<open>eqn\<close>, \<open>num\<close> and \<open>str\<close>.
\<close>

definition get_textual_value :: "'d state \<Rightarrow> nat \<Rightarrow> nat \<Rightarrow> fault + string" where
  "get_textual_value st row col =
     (case type (sheet st row col) of
        none \<Rightarrow> Inr ''''
      | _ \<Rightarrow>
          (case strVal (sheet st row col) of
             None \<Rightarrow> Inl NullRead
           | Some s \<Rightarrow> Inr (take 255 s)))"

text \<open>
  The states the program can be in: the initial one, and those a returning write or a
  clear, at a coordinate of the grid, leads to.
\<close>

inductive reachable :: "'d env \<Rightarrow> 'd state \<Rightarrow> bool" for env :: "'d env" where
  at_start: "reachable env (init_state env)"
| after_write: "reachable env st \<Longrightarrow> row < NUM_ROWS env \<Longrightarrow> col < NUM_COLS env \<Longrightarrow>
     set_cell_value env st row col text = Some (Inr st') \<Longrightarrow> reachable env st'"
| after_clear: "reachable env st \<Longrightarrow> row < NUM_ROWS env \<Longrightarrow> col < NUM_COLS env \<Longrightarrow>
     reachable env (clear_cell env st row col)"

section \<open>Notions used to state the properties\<close>

subsection \<open>The shape of a decimal numeral\<close>

text \<open>
  A text made of digits and points only, with at most one point and at least one digit.
  \<open>well_formed_decimal\<close> allows white space on both sides of it, \<open>is_valid_num\<close> is
  compared with both.
\<close>

definition decimal_body :: "string \<Rightarrow> bool" where
  "decimal_body b = (list_all (\<lambda>c. isdigit c \<or> c = CHR ''.'') b
     \<and> count_list b (CHR ''.'') \<le> 1 \<and> list_ex isdigit b)"

definition well_formed_decimal :: "string \<Rightarrow> bool" where
  "well_formed_decimal s = decimal_body (rev (dropWhile isspace (rev (dropWhile isspace s))))"

subsection \<open>The branches of the scan loop\<close>

definition special :: "char \<Rightarrow> bool" where
  "special c = (c = CHR ''='' \<or> c = CHR '' '' \<or> c = CHR ''+'')"

definition numeric_start :: "char \<Rightarrow> bool" where
  "numeric_start c = (isdigit c \<or> c = CHR ''.'')"

text \<open>A text at which the scan loop makes no progress.\<close>

definition stuck :: "string \<Rightarrow> bool" where
  "stuck formula =
     (case formula of [] \<Rightarrow> False | c # rest \<Rightarrow> numeric_start c \<and> strtod_len formula = 0)"

definition ref_row :: "'d env \<Rightarrow> string \<Rightarrow> int" where
  "ref_row env s = ROW_of_long env (fst (strtol env s) - 1)"

definition ref_col :: "char \<Rightarrow> int" where
  "ref_col c = int (of_char c) - 65"

definition ref_outside :: "'d env \<Rightarrow> char \<Rightarrow> string \<Rightarrow> bool" where
  "ref_outside env c s = (ref_row env s < 0 \<or> int (NUM_ROWS env) \<le> ref_row env s
     \<or> ref_col c < 0 \<or> int (NUM_COLS env) \<le> ref_col c)"

text \<open>Two results of the scan that differ at most in the values on the stack.\<close>

fun same_shape :: "(error + 'd list \<times> nat) \<Rightarrow> (error + 'd list \<times> nat) \<Rightarrow> bool" where
  "same_shape (Inl e) (Inl e') = (e = e')"
| "same_shape (Inr (s, n)) (Inr (s', n')) = (length s = length s' \<and> n = n')"
| "same_shape _ _ = False"

subsection \<open>The invariant of the formula cells\<close>

text \<open>
  Whether a formula evaluates does not depend on the values in the sheet (lemma
  \<open>parse_sheet_ok\<close> below), so it is stated for the empty sheet. In every reachable state
  each cell of type \<open>eqn\<close> holds a formula that evaluates.
\<close>

definition evaluates :: "'d env \<Rightarrow> string \<Rightarrow> bool" where
  "evaluates env f =
     (\<exists>r. parse_and_calculate_formula env (sheet (init_state env)) f = Some (Inr r))"

definition formulas_ok :: "'d env \<Rightarrow> 'd state \<Rightarrow> bool" where
  "formulas_ok env st =
     (\<forall>i j. type (sheet st i j) = eqn \<longrightarrow> (\<exists>f. strVal (sheet st i j) = Some f \<and> evaluates env f))"

subsection \<open>The formula grammar\<close>

text \<open>
  The grammar of the specification: an operand is a decimal literal or a cell reference (a
  column letter and the digits of a row number); a formula is \<^verbatim>\<open>=\<close> and a sequence
  of tokens, operands and \<^verbatim>\<open>+\<close> signs, each with a number of blanks before it.
  \<open>render\<close> is the text of a token sequence. In a \<open>separated\<close> sequence an
  operand that follows an operand has a blank before it. \<open>sum_tokens\<close> is the sequence
  operand, \<^verbatim>\<open>+\<close>, operand, ..., operand.
\<close>

datatype operand = Literal string | Reference char string

datatype token = Operand operand | Plus

fun render_operand :: "operand \<Rightarrow> string" where
  "render_operand (Literal s) = s"
| "render_operand (Reference c ds) = c # ds"

fun render_token :: "token \<Rightarrow> string" where
  "render_token (Operand x) = render_operand x"
| "render_token Plus = ''+''"

fun render :: "(nat \<times> token) list \<Rightarrow> string" where
  "render [] = []"
| "render ((n, t) # ts) = replicate n (CHR '' '') @ render_token t @ render ts"

fun operand_syntax :: "operand \<Rightarrow> bool" where
  "operand_syntax (Literal s) = decimal_body s"
| "operand_syntax (Reference c ds) = (isupper c \<and> ds \<noteq> [] \<and> list_all isdigit ds)"

fun in_grid :: "'d env \<Rightarrow> operand \<Rightarrow> bool" where
  "in_grid env (Literal s) = True"
| "in_grid env (Reference c ds) =
     (1 \<le> decimal_value ds \<and> decimal_value ds \<le> int (NUM_ROWS env)
      \<and> of_char c - 65 < NUM_COLS env)"

definition operand_ok :: "'d env \<Rightarrow> operand \<Rightarrow> bool" where
  "operand_ok env x = (operand_syntax x \<and> in_grid env x)"

fun operand_value :: "'d env \<Rightarrow> (nat \<Rightarrow> nat \<Rightarrow> 'd cell) \<Rightarrow> operand \<Rightarrow> 'd" where
  "operand_value env sh (Literal s) = strtod_val env s"
| "operand_value env sh (Reference c ds) =
     numVal (sh (nat (decimal_value ds - 1)) (of_char c - 65))"

fun operands :: "(nat \<times> token) list \<Rightarrow> operand list" where
  "operands [] = []"
| "operands ((n, Operand x) # ts) = x # operands ts"
| "operands ((n, Plus) # ts) = operands ts"

fun plus_count :: "(nat \<times> token) list \<Rightarrow> nat" where
  "plus_count [] = 0"
| "plus_count ((n, Operand x) # ts) = plus_count ts"
| "plus_count ((n, Plus) # ts) = Suc (plus_count ts)"

fun separated :: "(nat \<times> token) list \<Rightarrow> bool" where
  "separated ((n, Operand x) # (m, Operand y) # ts) = (0 < m \<and> separated ((m, Operand y) # ts))"
| "separated (t # ts) = separated ts"
| "separated [] = True"

text \<open>A text that is empty or starts with a blank or a \<^verbatim>\<open>+\<close>.\<close>

definition terminated :: "string \<Rightarrow> bool" where
  "terminated s = (case s of [] \<Rightarrow> True | c # _ \<Rightarrow> c = CHR '' '' \<or> c = CHR ''+'')"

fun sum_tokens :: "nat \<times> operand \<Rightarrow> (nat \<times> nat \<times> operand) list \<Rightarrow> (nat \<times> token) list" where
  "sum_tokens (n, x) [] = [(n, Operand x)]"
| "sum_tokens (n, x) ((a, b, y) # rest) = (n, Operand x) # (a, Plus) # sum_tokens (b, y) rest"

text \<open>The characters the grammar check lets through, white space apart.\<close>

definition formula_char :: "char \<Rightarrow> bool" where
  "formula_char d = (isupper d \<or> isdigit d \<or> d = CHR ''.'' \<or> d = CHR ''+'')"

subsection \<open>An environment with exact arithmetic\<close>

text \<open>
  The examples run the model in a grid of 4 rows and 3 columns whose numbers are rationals.
  \<open>exact_value\<close> is the exact value of a subject sequence of \<^verbatim>\<open>strtod\<close>, decimal or
  hexadecimal, with its exponent. \<open>exact_format\<close> prints the integers from 0 to 999999 as
  \<^verbatim>\<open>%lg\<close> does, by their decimal digits, and no other value. The theorems themselves
  hold for every environment.
\<close>

definition digit_value :: "char \<Rightarrow> nat" where
  "digit_value c = (if isdigit c then of_char c - 48 else if isupper c then of_char c - 55
     else of_char c - 87)"

definition mantissa_value :: "nat \<Rightarrow> (char \<Rightarrow> bool) \<Rightarrow> string \<Rightarrow> rat" where
  "mantissa_value base dig s =
     (let ip = takeWhile dig s; fp = drop (length ip + 1) s
      in of_nat (foldl (\<lambda>v c. base * v + digit_value c) 0 ip)
         + of_nat (foldl (\<lambda>v c. base * v + digit_value c) 0 fp) / of_nat base ^ length fp)"

definition scaled :: "rat \<Rightarrow> nat \<Rightarrow> string \<Rightarrow> rat" where
  "scaled v base e =
     (case e of
        [] \<Rightarrow> v
      | _ # t \<Rightarrow>
          (case t of
             [] \<Rightarrow> v
           | sg # ds \<Rightarrow>
               if sg = CHR ''-'' then v / of_nat base ^ nat (decimal_value ds)
               else if sg = CHR ''+'' then v * of_nat base ^ nat (decimal_value ds)
               else v * of_nat base ^ nat (decimal_value t)))"

definition exact_value :: "string \<Rightarrow> rat" where
  "exact_value s =
     (if hex_len s \<noteq> 0 then
        (let t = drop 2 s; m = mantissa_len isxdigit t
         in scaled (mantissa_value 16 isxdigit (take m t)) 2 (drop m t))
      else
        (let m = mantissa_len isdigit s
         in scaled (mantissa_value 10 isdigit (take m s)) 10 (drop m s)))"

function digits_of :: "nat \<Rightarrow> string" where
  "digits_of n = (if n < 10 then [''0123456789'' ! n]
     else digits_of (n div 10) @ [''0123456789'' ! (n mod 10)])"
  by pat_completeness auto
termination by (relation "measure id") auto

definition exact_format :: "rat \<Rightarrow> string" where
  "exact_format q =
     (if q = of_int \<lfloor>q\<rfloor> \<and> 0 \<le> q \<and> q < 1000000 then digits_of (nat \<lfloor>q\<rfloor>) else ''?'')"

definition env0 :: "rat env" where
  "env0 = \<lparr>NUM_ROWS = 4, NUM_COLS = 3, LONG_MAX = 2 ^ 63 - 1, ROW_of_long = (\<lambda>n. n),
     dzero = 0, dadd = (+), strtod_val = exact_value, lg_format = exact_format\<rparr>"


section \<open>Properties\<close>

subsection \<open>Evaluating the model\<close>

lemmas ctype_defs = isspace_def isdigit_def isupper_def islower_def isalpha_def isxdigit_def

lemmas run_defs =
  set_cell_value_def finish_write_def coords_def update_cell_value_def put_cell_def
  update_cell_display_def set_string_value_def set_num_value_def initialize_cell_def
  is_valid_num_def parse_and_calculate_formula_def is_valid_formula_def ctype_defs
  scan_formula.simps strtod_def strtod_len_def hex_len_def decimal_len_def mantissa_len_def
  exponent_len_def env0_def exact_value_def mantissa_value_def scaled_def digit_value_def
  decimal_value_def strtol_def init_state_def exact_format_def upt_rec List.product_def
  Let_def get_textual_value_def clear_cell_def

subsection \<open>The classifiers\<close>

lemma skip_whitespace_dropWhile: "skip_whitespace s = dropWhile isspace s"
  by (induction s) auto

lemma not_isdigit_point: "\<not> isdigit (CHR ''.'')"
  by (simp add: isdigit_def)

lemma num_scan_shape:
  "num_scan b hasDigit hasPoint =
     (list_all (\<lambda>c. isdigit c \<or> c = CHR ''.'') b
      \<and> count_list b (CHR ''.'') + (if hasPoint then 1 else 0) \<le> 1
      \<and> (hasDigit \<or> list_ex isdigit b))"
  by (induction b arbitrary: hasDigit hasPoint) (auto simp: not_isdigit_point)

lemma skip_whitespace_keeps:
  "c \<in> set s \<Longrightarrow> \<not> isspace c \<Longrightarrow> c \<in> set (skip_whitespace s)"
  by (induction s) auto

lemma islower_not_isspace: "islower c \<Longrightarrow> \<not> isspace c"
  by (auto simp: ctype_defs)

lemma formula_scan_lower: "\<exists>c \<in> set s. islower c \<Longrightarrow> \<not> formula_scan s"
proof (induction s rule: formula_scan.induct)
  case 1
  then show ?case by simp
next
  case (2 c cs)
  from "2.prems" obtain l where l: "l \<in> set (c # cs)" "islower l" by blast
  then have in_rest: "l \<in> set (skip_whitespace (c # cs))"
    using skip_whitespace_keeps islower_not_isspace by blast
  show ?case
  proof (cases "skip_whitespace (c # cs)")
    case Nil
    then show ?thesis by simp
  next
    case (Cons d ds)
    show ?thesis
    proof (cases "l = d")
      case True
      with l Cons show ?thesis by (simp add: isalpha_def)
    next
      case False
      with in_rest Cons have "\<exists>c \<in> set ds. islower c" using l by auto
      with "2.IH" Cons show ?thesis by (auto simp del: skip_whitespace.simps)
    qed
  qed
qed

lemma lower_invalid_formula:
  assumes "c \<in> set t" "islower c"
  shows "\<not> is_valid_formula t"
proof (cases "skip_whitespace t")
  case Nil
  then show ?thesis by (simp add: is_valid_formula_def)
next
  case (Cons d rest)
  have "c \<in> set (d # rest)"
    using assms skip_whitespace_keeps islower_not_isspace Cons by metis
  moreover have "c \<noteq> CHR ''=''" using assms(2) by (auto simp: islower_def)
  ultimately have "d = CHR ''='' \<Longrightarrow> \<exists>c \<in> set rest. islower c" using assms(2) by auto
  then show ?thesis
    using Cons formula_scan_lower by (auto simp: is_valid_formula_def)
qed

lemma lower_invalid_num:
  assumes "c \<in> set t" "islower c"
  shows "\<not> is_valid_num (Some t)"
proof -
  have "c \<in> set (skip_whitespace t)"
    using assms skip_whitespace_keeps islower_not_isspace by blast
  moreover have "\<not> (isdigit c \<or> c = CHR ''.'')" using assms(2) by (auto simp: ctype_defs)
  ultimately show ?thesis
    by (auto simp: is_valid_num_def num_scan_shape list_all_iff)
qed

lemma valid_formula_not_num:
  assumes "is_valid_formula t"
  shows "\<not> is_valid_num (Some t)" and "t \<noteq> []"
proof -
  from assms obtain rest where r: "skip_whitespace t = CHR ''='' # rest"
    by (auto simp: is_valid_formula_def split: list.splits if_splits)
  then show "\<not> is_valid_num (Some t)"
    by (simp add: is_valid_num_def isdigit_def)
  from r show "t \<noteq> []" by auto
qed

subsection \<open>The scan loop, one step at a time\<close>

lemma numeric_start_not_special: "numeric_start c \<Longrightarrow> \<not> special c \<and> \<not> isalpha c \<and> \<not> isspace c"
  by (auto simp: numeric_start_def special_def ctype_defs)

lemma isalpha_not_special: "isalpha c \<Longrightarrow> \<not> special c \<and> \<not> numeric_start c"
  by (auto simp: numeric_start_def special_def ctype_defs)

lemma scan_nil: "scan_formula env sh [] stack opc = Some (Inr (stack, opc))"
  by (subst scan_formula.simps) simp

lemma scan_skip:
  "c = CHR ''='' \<or> c = CHR '' '' \<Longrightarrow>
   scan_formula env sh (c # rest) stack opc = scan_formula env sh rest stack opc"
  by (subst scan_formula.simps) simp

lemma scan_plus:
  "scan_formula env sh (CHR ''+'' # rest) stack opc = scan_formula env sh rest stack (opc + 1)"
  by (subst scan_formula.simps) simp

lemma scan_alpha_end:
  "isalpha c \<Longrightarrow> scan_formula env sh [c] stack opc = Some (Inl InvalidToken)"
  using isalpha_not_special [of c]
  by (subst scan_formula.simps) (simp add: special_def)

lemma scan_alpha_nodigit:
  "isalpha c \<Longrightarrow> \<not> isdigit d \<Longrightarrow>
   scan_formula env sh (c # d # rest) stack opc = Some (Inl InvalidToken)"
  using isalpha_not_special [of c]
  by (subst scan_formula.simps) (simp add: special_def)

lemma scan_alpha_digit:
  "isalpha c \<Longrightarrow> isdigit d \<Longrightarrow>
   scan_formula env sh (c # d # rest) stack opc =
     (if ref_outside env c (d # rest) then Some (Inl OutOfRange)
      else scan_formula env sh (dropWhile isdigit rest)
             (numVal (sh (nat (ref_row env (d # rest))) (nat (ref_col c))) # stack) opc)"
  using isalpha_not_special [of c]
  by (subst scan_formula.simps)
     (simp add: special_def ref_outside_def ref_row_def ref_col_def strtol_def Let_def)

lemma scan_numeric:
  "numeric_start c \<Longrightarrow>
   scan_formula env sh (c # rest) stack opc =
     scan_formula env sh (snd (strtod env (c # rest))) (fst (strtod env (c # rest)) # stack) opc"
  using numeric_start_not_special [of c]
  by (subst scan_formula.simps)
     (simp add: special_def numeric_start_def split: prod.splits)

lemma scan_other:
  "\<not> special c \<Longrightarrow> \<not> isalpha c \<Longrightarrow> \<not> numeric_start c \<Longrightarrow>
   scan_formula env sh (c # rest) stack opc = Some (Inl InvalidToken)"
  by (subst scan_formula.simps) (simp add: special_def numeric_start_def)


lemma strtod_numeric:
  "numeric_start c \<Longrightarrow>
   strtod env (c # rest) =
     (if strtod_len (c # rest) = 0 then (dzero env, c # rest)
      else (strtod_val env (take (strtod_len (c # rest)) (c # rest)),
            drop (strtod_len (c # rest)) (c # rest)))"
  using numeric_start_not_special [of c] by (simp add: strtod_def Let_def)

lemma scan_formula_not_stuck:
  assumes "scan_formula env sh formula stack opc = Some y"
  shows "\<not> stuck formula"
proof (rule scan_formula.raw_induct
    [where P = "\<lambda>env sh formula stack opc y. \<not> stuck formula", OF _ assms], goal_cases)
  case (1 scan env sh formula stack opc y)
  show ?case
  proof
    assume st: "stuck formula"
    then obtain c rest where f: "formula = c # rest" "numeric_start c" "strtod_len (c # rest) = 0"
      by (auto simp: stuck_def split: list.splits)
    have "strtod env (c # rest) = (dzero env, c # rest)"
      using f by (simp add: strtod_numeric)
    with 1(2) f numeric_start_not_special [of c]
    have "scan env sh formula (dzero env # stack) opc = Some y"
      by (simp add: special_def numeric_start_def)
    from 1(1) [OF this] st show False by simp
  qed
qed

lemma scan_stuck:
  "numeric_start c \<Longrightarrow> strtod_len (c # rest) = 0 \<Longrightarrow>
   scan_formula env sh (c # rest) stack opc = None"
  using scan_formula_not_stuck [of env sh "c # rest" stack opc]
  by (cases "scan_formula env sh (c # rest) stack opc") (auto simp: stuck_def)

lemma scan_numeric_step:
  "numeric_start c \<Longrightarrow> strtod_len (c # rest) \<noteq> 0 \<Longrightarrow>
   scan_formula env sh (c # rest) stack opc =
     scan_formula env sh (drop (strtod_len (c # rest)) (c # rest))
       (strtod_val env (take (strtod_len (c # rest)) (c # rest)) # stack) opc"
  by (simp add: scan_numeric strtod_numeric)

lemma scan_formula_sheet_aux:
  "length formula < n \<Longrightarrow> length stack' = length stack \<Longrightarrow>
   scan_formula env sh formula stack opc = Some y \<Longrightarrow>
   \<exists>y'. scan_formula env sh' formula stack' opc = Some y' \<and> same_shape y y'"
proof (induction n arbitrary: formula stack stack' opc)
  case 0
  then show ?case by simp
next
  case (Suc n)
  show ?case
  proof (cases formula)
    case Nil
    with Suc.prems show ?thesis by (auto simp: scan_nil)
  next
    case (Cons c rest)
    note f = Cons
    consider (skip) "c = CHR ''='' \<or> c = CHR '' ''" | (plus) "c = CHR ''+''"
      | (alpha) "isalpha c" | (numeric) "numeric_start c"
      | (other) "\<not> special c" "\<not> isalpha c" "\<not> numeric_start c"
      by (auto simp: special_def)
    then show ?thesis
    proof cases
      case skip
      with Suc.prems f have "scan_formula env sh rest stack opc = Some y"
        by (simp add: scan_skip)
      with Suc.IH [of rest stack' stack opc] Suc.prems f skip show ?thesis
        by (simp add: scan_skip)
    next
      case plus
      with Suc.prems f have "scan_formula env sh rest stack (opc + 1) = Some y"
        by (simp add: scan_plus)
      with Suc.IH [of rest stack' stack "opc + 1"] Suc.prems f plus show ?thesis
        by (simp add: scan_plus)
    next
      case alpha
      show ?thesis
      proof (cases rest)
        case Nil
        with Suc.prems f alpha show ?thesis by (auto simp: scan_alpha_end)
      next
        case (Cons d r)
        show ?thesis
        proof (cases "isdigit d")
          case False
          with Suc.prems f alpha Cons show ?thesis by (auto simp: scan_alpha_nodigit)
        next
          case True
          show ?thesis
          proof (cases "ref_outside env c (d # r)")
            case out: True
            with Suc.prems f alpha Cons True show ?thesis by (auto simp: scan_alpha_digit)
          next
            case inside: False
            let ?r = "dropWhile isdigit r"
            let ?i = "nat (ref_row env (d # r))" and ?j = "nat (ref_col c)"
            have "scan_formula env sh ?r (numVal (sh ?i ?j) # stack) opc = Some y"
              using Suc.prems f alpha Cons True inside by (simp add: scan_alpha_digit)
            moreover have "length ?r < n"
              using Suc.prems(1) f Cons length_dropWhile_le [of isdigit r] by simp
            ultimately have
              "\<exists>y'. scan_formula env sh' ?r (numVal (sh' ?i ?j) # stack') opc = Some y'
                 \<and> same_shape y y'"
              using Suc.IH [of ?r "numVal (sh' ?i ?j) # stack'" "numVal (sh ?i ?j) # stack" opc]
                Suc.prems(2) by simp
            then show ?thesis
              using f alpha Cons True inside by (simp add: scan_alpha_digit)
          qed
        qed
      qed
    next
      case numeric
      show ?thesis
      proof (cases "strtod_len (c # rest) = 0")
        case True
        with Suc.prems f numeric show ?thesis by (simp add: scan_stuck)
      next
        case False
        let ?k = "strtod_len (c # rest)"
        let ?v = "strtod_val env (take ?k (c # rest))"
        have "scan_formula env sh (drop ?k (c # rest)) (?v # stack) opc = Some y"
          using Suc.prems f numeric False by (simp add: scan_numeric_step)
        moreover have "length (drop ?k (c # rest)) < n"
          using Suc.prems(1) f False by simp
        ultimately have
          "\<exists>y'. scan_formula env sh' (drop ?k (c # rest)) (?v # stack') opc = Some y'
             \<and> same_shape y y'"
          using Suc.IH [of "drop ?k (c # rest)" "?v # stack'" "?v # stack" opc] Suc.prems(2)
          by simp
        then show ?thesis
          using f numeric False by (simp add: scan_numeric_step)
      qed
    next
      case other
      with Suc.prems f show ?thesis by (auto simp: scan_other)
    qed
  qed
qed

lemma scan_formula_sheet:
  "scan_formula env sh formula [] 0 = Some y \<Longrightarrow>
   \<exists>y'. scan_formula env sh' formula [] 0 = Some y' \<and> same_shape y y'"
  using scan_formula_sheet_aux [of formula "Suc (length formula)" "[]" "[]" env sh 0 y sh']
  by simp

lemma parse_sheet_fail:
  assumes "parse_and_calculate_formula env sh formula = Some (Inl e)"
  shows "parse_and_calculate_formula env sh' formula = Some (Inl e)"
proof (cases "is_valid_formula formula")
  case False
  with assms show ?thesis by (simp add: parse_and_calculate_formula_def)
next
  case True
  from assms True obtain y where y: "scan_formula env sh formula [] 0 = Some y"
    by (auto simp: parse_and_calculate_formula_def split: option.splits)
  from scan_formula_sheet [OF this] obtain y' where
    y': "scan_formula env sh' formula [] 0 = Some y'" "same_shape y y'" by blast
  show ?thesis
    using assms True y y'
    by (cases y; cases y')
       (auto simp: parse_and_calculate_formula_def split: if_splits)
qed

lemma parse_sheet_ok:
  assumes "parse_and_calculate_formula env sh formula = Some (Inr r)"
  shows "\<exists>r'. parse_and_calculate_formula env sh' formula = Some (Inr r')"
proof -
  from assms have v: "is_valid_formula formula"
    by (auto simp: parse_and_calculate_formula_def split: if_splits)
  from assms v obtain y where y: "scan_formula env sh formula [] 0 = Some y"
    by (auto simp: parse_and_calculate_formula_def split: option.splits)
  from scan_formula_sheet [OF this] obtain y' where
    y': "scan_formula env sh' formula [] 0 = Some y'" "same_shape y y'" by blast
  show ?thesis
    using assms v y y'
    by (cases y; cases y')
       (auto simp: parse_and_calculate_formula_def split: if_splits)
qed

subsection \<open>States and the invariant\<close>

lemma evaluatesI: "parse_and_calculate_formula env sh f = Some (Inr r) \<Longrightarrow> evaluates env f"
  unfolding evaluates_def by (rule parse_sheet_ok)

lemma evaluatesD: "evaluates env f \<Longrightarrow> \<exists>r. parse_and_calculate_formula env sh f = Some (Inr r)"
  unfolding evaluates_def by (auto dest: parse_sheet_ok)

lemma sheet_put_cell:
  "sheet (put_cell st row col c) i j = (if i = row \<and> j = col then c else sheet st i j)"
  by (simp add: put_cell_def)

lemma display_put_cell: "display (put_cell st row col c) = display st"
  by (simp add: put_cell_def)

lemma sheet_update_cell_display: "sheet (update_cell_display st row col t) = sheet st"
  by (simp add: update_cell_display_def)

lemma display_update_cell_display:
  "display (update_cell_display st row col t) = display st @ [(row, col, t)]"
  by (simp add: update_cell_display_def)

lemma formulas_ok_display: "formulas_ok env (update_cell_display st row col t) = formulas_ok env st"
  by (simp add: formulas_ok_def sheet_update_cell_display)

lemma formulas_ok_put:
  "formulas_ok env st \<Longrightarrow> type c \<noteq> eqn \<Longrightarrow> formulas_ok env (put_cell st row col c)"
  by (auto simp: formulas_ok_def sheet_put_cell)

lemma formulas_ok_put_eqn:
  "formulas_ok env st \<Longrightarrow> strVal c = Some f \<Longrightarrow> evaluates env f \<Longrightarrow>
   formulas_ok env (put_cell st row col c)"
  by (auto simp: formulas_ok_def sheet_put_cell)

text \<open>What one recalculation step does to a state whose formula cells all evaluate.\<close>

lemma update_cell_value_ok:
  assumes "formulas_ok env st"
  shows "\<exists>st'. update_cell_value env st i j = Some (Inr st') \<and> formulas_ok env st'
           \<and> (\<forall>i' j'. \<not> (i' = i \<and> j' = j) \<longrightarrow> sheet st' i' j' = sheet st i' j')"
proof (cases "type (sheet st i j) = eqn")
  case False
  with assms show ?thesis by (simp add: update_cell_value_def)
next
  case True
  with assms obtain f where f: "strVal (sheet st i j) = Some f" "evaluates env f"
    by (auto simp: formulas_ok_def)
  from evaluatesD [OF f(2)] obtain r where
    r: "parse_and_calculate_formula env (sheet st) f = Some (Inr r)" by blast
  let ?st = "update_cell_display (put_cell st i j ((sheet st i j)\<lparr>numVal := r, type := num\<rparr>)) i j f"
  have "update_cell_value env st i j = Some (Inr ?st)"
    using True f r by (simp add: update_cell_value_def)
  moreover have "formulas_ok env ?st"
    using assms by (simp add: formulas_ok_display formulas_ok_put)
  moreover have "\<forall>i' j'. \<not> (i' = i \<and> j' = j) \<longrightarrow> sheet ?st i' j' = sheet st i' j'"
    by (simp add: sheet_update_cell_display sheet_put_cell)
  ultimately show ?thesis by blast
qed

lemma update_cells_ok:
  "formulas_ok env st \<Longrightarrow>
   \<exists>st'. update_cells env row col ps st = Some (Inr st') \<and> formulas_ok env st'
     \<and> sheet st' row col = sheet st row col"
proof (induction ps arbitrary: st)
  case Nil
  then show ?case by simp
next
  case (Cons p ps)
  obtain i j where p: "p = (i, j)" by (cases p)
  show ?case
  proof (cases "i = row \<and> j = col")
    case True
    with Cons p show ?thesis by simp
  next
    case False
    from update_cell_value_ok [OF Cons.prems, of i j] obtain st1 where
      st1: "update_cell_value env st i j = Some (Inr st1)" "formulas_ok env st1"
        "\<forall>i' j'. \<not> (i' = i \<and> j' = j) \<longrightarrow> sheet st1 i' j' = sheet st i' j'" by blast
    from Cons.IH [OF st1(2)] obtain st' where
      st': "update_cells env row col ps st1 = Some (Inr st')" "formulas_ok env st'"
        "sheet st' row col = sheet st1 row col" by blast
    have "sheet st1 row col = sheet st row col" using st1(3) False by auto
    with st' st1 p False show ?thesis by simp
  qed
qed

lemma finish_write_ok:
  assumes "formulas_ok env st"
  shows "\<exists>st'. finish_write env st row col t = Some (Inr st') \<and> formulas_ok env st'
           \<and> sheet st' row col = sheet st row col \<and> last (display st') = (row, col, t)"
proof -
  from update_cells_ok [OF assms, of row col "coords env"] obtain st1 where
    st1: "update_cells env row col (coords env) st = Some (Inr st1)" "formulas_ok env st1"
      "sheet st1 row col = sheet st row col" by blast
  then show ?thesis
    by (simp add: finish_write_def formulas_ok_display sheet_update_cell_display
          display_update_cell_display)
qed

lemma formulas_ok_init: "formulas_ok env (init_state env)"
  by (simp add: formulas_ok_def init_state_def)

lemma formulas_ok_clear: "formulas_ok env st \<Longrightarrow> formulas_ok env (clear_cell env st row col)"
  by (simp add: clear_cell_def formulas_ok_display formulas_ok_put)

lemma formulas_ok_set_string:
  "formulas_ok env st \<Longrightarrow> formulas_ok env (set_string_value env st row col t)"
  by (simp add: set_string_value_def formulas_ok_put)

lemma formulas_ok_set_num:
  "formulas_ok env st \<Longrightarrow> formulas_ok env (set_num_value env st row col t)"
  by (simp add: set_num_value_def formulas_ok_put)

subsection \<open>The three kinds of write\<close>

lemma put_cell_twice: "put_cell (put_cell st row col a) row col b = put_cell st row col b"
  by (simp add: put_cell_def)

lemma set_string_value_prepared:
  "set_string_value env (initialize_cell env st row col) row col t =
     set_string_value env st row col t"
  by (simp add: set_string_value_def initialize_cell_def put_cell_twice)

lemma set_num_value_prepared:
  "set_num_value env (initialize_cell env st row col) row col t =
     set_num_value env st row col t"
  by (simp add: set_num_value_def initialize_cell_def put_cell_twice)

lemma set_cell_value_num:
  assumes "t \<noteq> []" "is_valid_num (Some t)"
  shows "set_cell_value env st row col (Some t) =
           finish_write env (set_num_value env st row col t) row col t"
  using assms by (simp add: set_cell_value_def Let_def set_num_value_prepared)

lemma set_cell_value_text:
  assumes "t \<noteq> []" "\<not> is_valid_num (Some t)" "\<not> is_valid_formula t"
  shows "set_cell_value env st row col (Some t) =
           finish_write env (set_string_value env st row col t) row col t"
  using assms by (simp add: set_cell_value_def Let_def set_string_value_prepared)

lemma set_cell_value_formula:
  assumes "is_valid_formula t"
  shows "set_cell_value env st row col (Some t) =
     (case parse_and_calculate_formula env (sheet (set_string_value env st row col t)) t of
        None \<Rightarrow> None
      | Some (Inr result) \<Rightarrow>
          finish_write env
            (put_cell (set_string_value env st row col t) row col
               ((sheet (set_string_value env st row col t) row col)\<lparr>type := eqn\<rparr>))
            row col (lg_format env result)
      | Some (Inl e) \<Rightarrow> finish_write env (set_string_value env st row col t) row col ''ERROR'')"
  using assms valid_formula_not_num [OF assms]
  by (simp add: set_cell_value_def Let_def set_string_value_prepared
        split: option.splits sum.splits)

lemma set_cell_value_preserves:
  assumes "formulas_ok env st" "set_cell_value env st row col w = Some (Inr st')"
  shows "formulas_ok env st'"
proof (cases w)
  case None
  with assms show ?thesis by (simp add: set_cell_value_def)
next
  case (Some t)
  note w = Some
  show ?thesis
  proof (cases "t = []")
    case True
    with assms w show ?thesis by (simp add: set_cell_value_def)
  next
    case nonempty: False
    let ?st2 = "set_string_value env st row col t"
    have ok2: "formulas_ok env ?st2" using assms(1) by (rule formulas_ok_set_string)
    show ?thesis
    proof (cases "is_valid_num (Some t)")
      case True
      have "formulas_ok env (set_num_value env st row col t)"
        using assms(1) by (rule formulas_ok_set_num)
      from finish_write_ok [OF this, of row col t] assms(2) w nonempty True
      show ?thesis by (auto simp: set_cell_value_num)
    next
      case notnum: False
      show ?thesis
      proof (cases "is_valid_formula t")
        case False
        from finish_write_ok [OF ok2, of row col t] assms(2) w nonempty notnum False
        show ?thesis by (auto simp: set_cell_value_text)
      next
        case True
        show ?thesis
        proof (cases "parse_and_calculate_formula env (sheet ?st2) t")
          case None
          with assms(2) w True show ?thesis by (simp add: set_cell_value_formula)
        next
          case (Some res)
          show ?thesis
          proof (cases res)
            case (Inl e)
            from finish_write_ok [OF ok2, of row col "''ERROR''"] assms(2) w True Some Inl
            show ?thesis by (auto simp: set_cell_value_formula)
          next
            case (Inr r)
            let ?st3 = "put_cell ?st2 row col ((sheet ?st2 row col)\<lparr>type := eqn\<rparr>)"
            have "evaluates env t" using Some Inr by (auto intro: evaluatesI)
            then have "formulas_ok env ?st3"
              using ok2
              by (intro formulas_ok_put_eqn [where f = t])
                 (simp_all add: set_string_value_def sheet_put_cell)
            from finish_write_ok [OF this, of row col "lg_format env r"] assms(2) w True
              Some Inr
            show ?thesis by (auto simp: set_cell_value_formula)
          qed
        qed
      qed
    qed
  qed
qed

lemma reachable_formulas_ok: "reachable env st \<Longrightarrow> formulas_ok env st"
  by (induction rule: reachable.induct)
     (auto intro: formulas_ok_init formulas_ok_clear set_cell_value_preserves)

lemma update_cell_value_frame:
  assumes "update_cell_value env st i j = Some (Inr st')" and "\<not> (i' = i \<and> j' = j)"
  shows "sheet st' i' j' = sheet st i' j'"
  using assms
  by (auto simp: update_cell_value_def sheet_update_cell_display sheet_put_cell
           split: if_splits option.splits sum.splits)

lemma update_cells_keeps_failing:
  "update_cells env row col ps st = Some (Inr st') \<Longrightarrow>
   type (sheet st i j) = eqn \<Longrightarrow> strVal (sheet st i j) = Some f \<Longrightarrow>
   parse_and_calculate_formula env (sheet st) f = Some (Inl e) \<Longrightarrow>
   sheet st' i j = sheet st i j"
proof (induction ps arbitrary: st)
  case Nil
  then show ?case by simp
next
  case (Cons p ps)
  obtain a b where p: "p = (a, b)" by (cases p)
  show ?case
  proof (cases "a = row \<and> b = col")
    case True
    with Cons p show ?thesis by simp
  next
    case False
    with Cons.prems(1) p obtain st1 where
      st1: "update_cell_value env st a b = Some (Inr st1)"
        "update_cells env row col ps st1 = Some (Inr st')"
      by (auto split: option.splits sum.splits)
    have same: "sheet st1 i j = sheet st i j"
    proof (cases "a = i \<and> b = j")
      case True
      with st1(1) Cons.prems(2-4) show ?thesis
        by (auto simp: update_cell_value_def sheet_update_cell_display)
    next
      case False
      then have "\<not> (i = a \<and> j = b)" by auto
      with st1(1) show ?thesis by (rule update_cell_value_frame)
    qed
    have "parse_and_calculate_formula env (sheet st1) f = Some (Inl e)"
      using Cons.prems(4) by (rule parse_sheet_fail)
    with Cons.IH [OF st1(2)] same Cons.prems(2,3) show ?thesis by simp
  qed
qed

subsection \<open>Literals and references under the scan loop\<close>

lemma terminated_no_digit: "terminated s \<Longrightarrow> takeWhile isdigit s = [] \<and> dropWhile isdigit s = s"
  by (cases s) (auto simp: terminated_def isdigit_def)

lemma takeWhile_digits:
  "list_all isdigit a \<Longrightarrow> terminated s \<Longrightarrow>
   takeWhile isdigit (a @ s) = a \<and> dropWhile isdigit (a @ s) = s"
  by (induction a) (auto simp: terminated_no_digit)

lemma takeWhile_digits_point:
  "list_all isdigit a \<Longrightarrow>
   takeWhile isdigit (a @ CHR ''.'' # s) = a \<and> dropWhile isdigit (a @ CHR ''.'' # s) = CHR ''.'' # s"
  by (induction a) (auto simp: isdigit_def)

lemma decimal_body_split:
  assumes "decimal_body lit"
  shows "\<exists>a u. list_all isdigit a \<and> list_all isdigit u
           \<and> (lit = a \<or> lit = a @ CHR ''.'' # u) \<and> lit \<noteq> [] \<and> (a \<noteq> [] \<or> u \<noteq> [])"
proof -
  let ?a = "takeWhile isdigit lit" and ?t = "dropWhile isdigit lit"
  have la: "list_all isdigit ?a" by (simp add: list_all_iff) (meson set_takeWhileD)
  have lit: "lit = ?a @ ?t" by simp
  have ne: "lit \<noteq> []" using assms by (auto simp: decimal_body_def)
  show ?thesis
  proof (cases ?t)
    case Nil
    then have "lit = ?a" by (metis append_Nil2 takeWhile_dropWhile_id)
    with la ne show ?thesis by metis
  next
    case (Cons c u)
    then have "\<not> isdigit c" by (metis hd_dropWhile list.sel(1) list.distinct(1))
    moreover have "c \<in> set lit" using Cons by (metis list.set_intros(1) set_dropWhileD)
    ultimately have c: "c = CHR ''.''" using assms by (auto simp: decimal_body_def list_all_iff)
    have eq: "lit = ?a @ CHR ''.'' # u" using lit Cons c by simp
    have "count_list lit (CHR ''.'') = count_list ?a (CHR ''.'') + 1 + count_list u (CHR ''.'')"
      by (subst eq) simp
    then have "count_list u (CHR ''.'') = 0" using assms by (simp add: decimal_body_def)
    then have nodot: "CHR ''.'' \<notin> set u" by (simp add: count_list_0_iff)
    have "set u \<subseteq> set lit" using eq by (metis set_subset_Cons set_append Un_upper2 subset_trans)
    then have lu: "list_all isdigit u"
      using assms nodot by (auto simp: decimal_body_def list_all_iff)
    have "\<exists>d \<in> set lit. isdigit d" using assms by (auto simp: decimal_body_def list_ex_iff)
    then have "?a \<noteq> [] \<or> u \<noteq> []"
      using eq by (metis not_isdigit_point append_Nil empty_iff empty_set set_ConsD)
    with la lu eq ne show ?thesis by blast
  qed
qed

lemma terminated_cases:
  "terminated s \<Longrightarrow> s = [] \<or> (\<exists>c t. s = c # t \<and> (c = CHR '' '' \<or> c = CHR ''+''))"
  by (cases s) (auto simp: terminated_def)

lemma exponent_len_terminated: "terminated s \<Longrightarrow> exponent_len lo up s = 0 \<or> lo = CHR '' '' \<or> lo = CHR ''+'' \<or> up = CHR '' '' \<or> up = CHR ''+''"
  by (cases s) (auto simp: exponent_len_def terminated_def)

lemma exponent_len_e: "terminated s \<Longrightarrow> exponent_len (CHR ''e'') (CHR ''E'') s = 0"
  using exponent_len_terminated [of s "CHR ''e''" "CHR ''E''"] by simp

lemma mantissa_len_literal:
  assumes "decimal_body lit" "terminated s"
  shows "mantissa_len isdigit (lit @ s) = length lit"
proof -
  from decimal_body_split [OF assms(1)] obtain a u where
    au: "list_all isdigit a" "list_all isdigit u" "lit = a \<or> lit = a @ CHR ''.'' # u"
      "a \<noteq> [] \<or> u \<noteq> []" by blast
  from au(3) show ?thesis
  proof
    assume l: "lit = a"
    have tw: "takeWhile isdigit (a @ s) = a" using au(1) assms(2) by (simp add: takeWhile_digits)
    have "drop (length a) (a @ s) = s" by simp
    with tw l terminated_cases [OF assms(2)] show ?thesis
      by (auto simp: mantissa_len_def Let_def)
  next
    assume l: "lit = a @ CHR ''.'' # u"
    have tw: "takeWhile isdigit (a @ CHR ''.'' # u @ s) = a"
      using au(1) by (simp add: takeWhile_digits_point)
    have tu: "takeWhile isdigit (u @ s) = u" using au(2) assms(2) by (simp add: takeWhile_digits)
    have "drop (length a) (a @ CHR ''.'' # u @ s) = CHR ''.'' # u @ s" by simp
    with tw tu l au(4) show ?thesis
      by (auto simp: mantissa_len_def Let_def)
  qed
qed

lemma hex_len_literal:
  assumes "decimal_body lit" "terminated s"
  shows "hex_len (lit @ s) = 0"
proof -
  have chars: "\<forall>c \<in> set lit. c \<noteq> CHR ''x'' \<and> c \<noteq> CHR ''X''"
    using assms(1) by (auto simp: decimal_body_def list_all_iff isdigit_def)
  show ?thesis
  proof (cases lit)
    case Nil
    with assms(1) show ?thesis by (simp add: decimal_body_def)
  next
    case (Cons z l)
    show ?thesis
    proof (cases l)
      case Nil
      with Cons terminated_cases [OF assms(2)] show ?thesis
        by (auto simp: hex_len_def)
    next
      case (Cons x l')
      with \<open>lit = z # l\<close> chars show ?thesis by (auto simp: hex_len_def)
    qed
  qed
qed

lemma strtod_len_literal:
  assumes "decimal_body lit" "terminated s"
  shows "strtod_len (lit @ s) = length lit"
proof -
  have "lit \<noteq> []" using assms(1) by (auto simp: decimal_body_def)
  then show ?thesis
    using assms
    by (simp add: strtod_len_def hex_len_literal decimal_len_def mantissa_len_literal Let_def
          exponent_len_e)
qed

lemma decimal_body_start: "decimal_body lit \<Longrightarrow> \<exists>c l. lit = c # l \<and> numeric_start c"
  by (cases lit) (auto simp: decimal_body_def numeric_start_def)

lemma scan_literal:
  assumes "decimal_body lit" "terminated s"
  shows "scan_formula env sh (lit @ s) stack opc =
           scan_formula env sh s (strtod_val env lit # stack) opc"
proof -
  from decimal_body_start [OF assms(1)] obtain c l where
    c: "lit = c # l" "numeric_start c" by blast
  have len: "strtod_len (c # l @ s) = length lit"
    using strtod_len_literal [OF assms] c by simp
  then have "strtod_len (c # l @ s) \<noteq> 0" using c by simp
  from scan_numeric_step [OF c(2) this, where env = env and sh = sh and stack = stack
      and opc = opc] len c show ?thesis by simp
qed

lemma scan_spaces:
  "scan_formula env sh (replicate n (CHR '' '') @ s) stack opc = scan_formula env sh s stack opc"
  by (induction n) (simp_all add: scan_skip)

lemma isupper_alpha: "isupper c \<Longrightarrow> isalpha c"
  by (simp add: isalpha_def)

lemma scan_reference:
  assumes "env_ok env" "operand_ok env (Reference c ds)" "terminated s"
  shows "scan_formula env sh (c # ds @ s) stack opc =
           scan_formula env sh s (operand_value env sh (Reference c ds) # stack) opc"
proof -
  from assms(2) have up: "isupper c" and ne: "ds \<noteq> []" and dig: "list_all isdigit ds"
    and lo: "1 \<le> decimal_value ds" and hi: "decimal_value ds \<le> int (NUM_ROWS env)"
    and col: "of_char c - 65 < NUM_COLS env"
    by (simp_all add: operand_ok_def)
  from ne obtain d r where ds: "ds = d # r" by (cases ds) auto
  with dig have d: "isdigit d" and r: "list_all isdigit r" by simp_all
  have tw: "takeWhile isdigit (d # r @ s) = ds" "dropWhile isdigit (r @ s) = s"
    using takeWhile_digits [OF dig assms(3)] takeWhile_digits [OF r assms(3)] ds by simp_all
  have "decimal_value ds \<le> LONG_MAX env" using hi assms(1) by (simp add: env_ok_def)
  then have v: "fst (strtol env (d # r @ s)) = decimal_value ds"
    using tw by (simp add: strtol_def)
  have conv: "\<forall>n < NUM_ROWS env. ROW_of_long env (int n) = int n"
    using assms(1) by (simp add: env_ok_def)
  have "nat (decimal_value ds - 1) < NUM_ROWS env" using lo hi by simp
  moreover have "int (nat (decimal_value ds - 1)) = decimal_value ds - 1" using lo by simp
  ultimately have "ROW_of_long env (decimal_value ds - 1) = decimal_value ds - 1"
    using conv by metis
  then have row: "ref_row env (d # r @ s) = decimal_value ds - 1"
    using v by (simp add: ref_row_def)
  have c65: "65 \<le> (of_char c :: nat)" using up by (simp add: isupper_def)
  then have colv: "ref_col c = int (of_char c - 65)" by (simp add: ref_col_def)
  have inside: "\<not> ref_outside env c (d # r @ s)"
    using row colv lo hi col by (simp add: ref_outside_def)
  have "scan_formula env sh (c # d # r @ s) stack opc =
          scan_formula env sh s
            (numVal (sh (nat (decimal_value ds - 1)) (of_char c - 65)) # stack) opc"
    using scan_alpha_digit [OF isupper_alpha [OF up] d,
        where env = env and rest = "r @ s" and sh = sh and stack = stack and opc = opc]
      inside row colv tw by simp
  then show ?thesis using ds by simp
qed

lemma scan_operand:
  assumes "env_ok env" "operand_ok env x" "terminated s"
  shows "scan_formula env sh (render_operand x @ s) stack opc =
           scan_formula env sh s (operand_value env sh x # stack) opc"
proof (cases x)
  case (Literal lit)
  with assms show ?thesis by (simp add: scan_literal operand_ok_def)
next
  case (Reference c ds)
  with assms scan_reference [where env = env and c = c and ds = ds and s = s and sh = sh
      and stack = stack and opc = opc] show ?thesis by simp
qed

lemma render_terminated:
  "separated ((n, Operand x) # ts) \<Longrightarrow> terminated (render ts) \<and> separated ts"
proof (cases ts)
  case Nil
  then show ?thesis by (simp add: terminated_def)
next
  case (Cons p ts')
  assume sep: "separated ((n, Operand x) # ts)"
  obtain m t where p: "p = (m, t)" by (cases p)
  show ?thesis
  proof (cases t)
    case (Operand y)
    with sep Cons p have "0 < m" "separated ts" by simp_all
    then show ?thesis using Cons p by (cases m) (simp_all add: terminated_def)
  next
    case Plus
    with sep Cons p have "separated ts" by simp
    then show ?thesis using Cons p Plus by (cases m) (simp_all add: terminated_def)
  qed
qed

lemma scan_render:
  assumes "env_ok env"
  shows "separated ts \<Longrightarrow> list_all (operand_ok env) (operands ts) \<Longrightarrow>
     scan_formula env sh (render ts) stack opc =
       Some (Inr (rev (map (operand_value env sh) (operands ts)) @ stack, opc + plus_count ts))"
proof (induction ts arbitrary: stack opc)
  case Nil
  then show ?case by (simp add: scan_nil)
next
  case (Cons p ts)
  obtain n t where p: "p = (n, t)" by (cases p)
  show ?case
  proof (cases t)
    case Plus
    with Cons.prems p have "separated ts" "list_all (operand_ok env) (operands ts)" by simp_all
    from Cons.IH [OF this, of stack "opc + 1"] p Plus show ?thesis
      by (simp add: scan_spaces scan_plus)
  next
    case (Operand x)
    with Cons.prems p have sep: "separated ((n, Operand x) # ts)"
      and ok: "operand_ok env x" and oks: "list_all (operand_ok env) (operands ts)" by simp_all
    from render_terminated [OF sep] have trm: "terminated (render ts)" and seps: "separated ts"
      by simp_all
    from Cons.IH [OF seps oks, of "operand_value env sh x # stack" opc] p Operand show ?thesis
      by (simp add: scan_spaces scan_operand [OF assms ok trm])
  qed
qed

subsection \<open>Formulas of the grammar\<close>

lemma formula_char_not_space: "formula_char d \<Longrightarrow> \<not> isspace d"
  by (auto simp: formula_char_def ctype_defs)

lemma skip_whitespace_spaces:
  "\<not> isspace d \<Longrightarrow> skip_whitespace (replicate n (CHR '' '') @ d # s) = d # s"
proof (induction n)
  case 0
  then show ?case by simp
next
  case (Suc n)
  have "isspace (CHR '' '')" by (simp add: isspace_def)
  with Suc show ?case by simp
qed

lemma formula_scan_step:
  assumes "formula_char d"
  shows "formula_scan (replicate n (CHR '' '') @ d # s) = formula_scan s"
proof -
  have sk: "skip_whitespace (replicate n (CHR '' '') @ d # s) = d # s"
    using assms by (simp add: skip_whitespace_spaces formula_char_not_space)
  obtain c cs where cons: "replicate n (CHR '' '') @ d # s = c # cs"
    by (cases "replicate n (CHR '' '') @ d # s") auto
  have "formula_scan (c # cs) = formula_scan s"
    using sk assms unfolding cons
    by (auto simp: formula_char_def ctype_defs simp del: skip_whitespace.simps)
  then show ?thesis by (simp add: cons)
qed

lemma formula_scan_chars:
  "list_all formula_char cs \<Longrightarrow> formula_scan (cs @ s) = formula_scan s"
proof (induction cs)
  case Nil
  then show ?case by simp
next
  case (Cons d cs)
  then show ?case using formula_scan_step [of d 0 "cs @ s"] by simp
qed

lemma render_token_chars:
  assumes "case t of Operand x \<Rightarrow> operand_syntax x | Plus \<Rightarrow> True"
  shows "\<exists>d cs. render_token t = d # cs \<and> formula_char d \<and> list_all formula_char cs"
proof (cases t)
  case Plus
  then show ?thesis by (simp add: formula_char_def)
next
  case (Operand x)
  show ?thesis
  proof (cases x)
    case (Literal lit)
    with assms Operand have b: "decimal_body lit" by simp
    then have "list_all formula_char lit"
      by (auto simp: decimal_body_def formula_char_def list_all_iff)
    moreover from b obtain d cs where "lit = d # cs" by (cases lit) (auto simp: decimal_body_def)
    ultimately show ?thesis using Operand Literal by auto
  next
    case (Reference c ds)
    with assms Operand have "isupper c" "list_all isdigit ds" by simp_all
    then have "formula_char c" "list_all formula_char ds"
      by (auto simp: formula_char_def list_all_iff)
    then show ?thesis using Operand Reference by simp
  qed
qed

lemma formula_scan_render:
  "list_all operand_syntax (operands ts) \<Longrightarrow> formula_scan (render ts)"
proof (induction ts)
  case Nil
  then show ?case by simp
next
  case (Cons p ts)
  obtain n t where p: "p = (n, t)" by (cases p)
  have tok: "case t of Operand x \<Rightarrow> operand_syntax x | Plus \<Rightarrow> True"
    using Cons.prems p by (cases t) simp_all
  have rest: "list_all operand_syntax (operands ts)"
    using Cons.prems p by (cases t) simp_all
  from render_token_chars [OF tok] obtain d cs where
    d: "render_token t = d # cs" "formula_char d" "list_all formula_char cs" by blast
  have "formula_scan (replicate n (CHR '' '') @ d # (cs @ render ts)) = formula_scan (cs @ render ts)"
    using d(2) by (rule formula_scan_step)
  also have "\<dots> = formula_scan (render ts)" using d(3) by (rule formula_scan_chars)
  finally show ?case using Cons.IH [OF rest] p d(1) by simp
qed

lemma valid_rendered:
  assumes "list_all operand_syntax (operands ts)"
  shows "is_valid_formula (replicate k (CHR '' '') @ CHR ''='' # render ts)"
proof -
  have "skip_whitespace (replicate k (CHR '' '') @ CHR ''='' # render ts) = CHR ''='' # render ts"
    by (rule skip_whitespace_spaces) (simp add: isspace_def)
  then show ?thesis using formula_scan_render [OF assms] by (simp add: is_valid_formula_def)
qed

lemma operand_ok_syntax: "list_all (operand_ok env) xs \<Longrightarrow> list_all operand_syntax xs"
  by (induction xs) (simp_all add: operand_ok_def)

lemma parse_rendered:
  assumes "env_ok env" "separated ts" "list_all (operand_ok env) (operands ts)"
  shows "parse_and_calculate_formula env sh (replicate k (CHR '' '') @ CHR ''='' # render ts) =
     (if length (operands ts) = plus_count ts + 1
      then Some (Inr (drain env (rev (map (operand_value env sh) (operands ts))) (dzero env)))
      else Some (Inl ArityMismatch))"
proof -
  have v: "is_valid_formula (replicate k (CHR '' '') @ CHR ''='' # render ts)"
    using assms(3) by (intro valid_rendered operand_ok_syntax)
  have "scan_formula env sh (replicate k (CHR '' '') @ CHR ''='' # render ts) [] 0 =
          scan_formula env sh (render ts) [] 0"
    by (simp add: scan_spaces scan_skip)
  then have "scan_formula env sh (replicate k (CHR '' '') @ CHR ''='' # render ts) [] 0 =
      Some (Inr (rev (map (operand_value env sh) (operands ts)), plus_count ts))"
    using scan_render [OF assms, of sh "[]" 0] by simp
  with v show ?thesis by (simp add: parse_and_calculate_formula_def)
qed

lemma drain_foldl: "drain env stack r = foldl (dadd env) r stack"
  by (induction stack arbitrary: r) simp_all

lemma sum_tokens_facts:
  "separated (sum_tokens (n, x) rest)
   \<and> operands (sum_tokens (n, x) rest) = x # map (\<lambda>(a, b, y). y) rest
   \<and> plus_count (sum_tokens (n, x) rest) = length rest"
proof (induction rest arbitrary: n x)
  case Nil
  then show ?case by simp
next
  case (Cons p rest)
  obtain a b y where p: "p = (a, b, y)" by (cases p)
  from Cons [of b y] p show ?case by simp
qed

text \<open>
  A point with no digit beside it passes the grammar check, and its evaluation never
  returns: \<^verbatim>\<open>strtod\<close> converts nothing and leaves the text pointer where it is.
\<close>

lemma point_alone_never_returns:
  "is_valid_formula ''=.'' \<and> parse_and_calculate_formula env sh ''=.'' = None"
proof -
  have v: "is_valid_formula ''=.''" by (simp add: is_valid_formula_def ctype_defs)
  have "strtod_len ''.'' = 0"
    by (simp add: strtod_len_def hex_len_def decimal_len_def mantissa_len_def ctype_defs)
  then have "scan_formula env sh ''.'' [] 0 = None"
    by (intro scan_stuck) (simp_all add: numeric_start_def)
  then have "scan_formula env sh ''=.'' [] 0 = None" by (simp add: scan_skip)
  with v show ?thesis by (simp add: parse_and_calculate_formula_def)
qed

text \<open>
  In a reachable state the failure branch of \<^verbatim>\<open>update_cell_value\<close> is never taken: a
  cell of type \<open>eqn\<close> holds a formula that evaluated when it was written, and it
  evaluates on every sheet.
\<close>

lemma stored_formula_evaluates:
  assumes "reachable env st" and "type (sheet st i j) = eqn"
  shows "\<exists>f r. strVal (sheet st i j) = Some f
           \<and> parse_and_calculate_formula env (sheet st) f = Some (Inr r)"
proof -
  from reachable_formulas_ok [OF assms(1)] assms(2) obtain f where
    f: "strVal (sheet st i j) = Some f" "evaluates env f"
    by (auto simp: formulas_ok_def)
  from evaluatesD [OF f(2), of "sheet st"] f(1) show ?thesis by blast
qed

text \<open>
  What a recalculation step does to a formula cell whose formula evaluates to \<open>r\<close>: the
  value becomes \<open>r\<close>, the type becomes \<open>num\<close>, and the display is notified with the
  cell's string, the formula text. A cell of another type is left alone.
\<close>

lemma update_cell_value_success:
  assumes "type (sheet st i j) = eqn" and "strVal (sheet st i j) = Some f"
    and "parse_and_calculate_formula env (sheet st) f = Some (Inr r)"
  shows "update_cell_value env st i j =
    Some (Inr (update_cell_display
      (put_cell st i j ((sheet st i j)\<lparr>numVal := r, type := num\<rparr>)) i j f))"
  using assms by (simp add: update_cell_value_def)

lemma update_cell_value_other:
  "type (sheet st i j) \<noteq> eqn \<Longrightarrow> update_cell_value env st i j = Some (Inr st)"
  by (simp add: update_cell_value_def)

section \<open>The claims\<close>

subsection \<open>Classification of numerals (C6)\<close>

text \<open>
  Claim C6, as the code has it: a text is classified Numeric exactly when, after its leading
  white space, it consists of digits and at most one decimal point, with at least one digit
  and nothing after the numeral: no sign, no exponent, and no trailing white space either.
\<close>

theorem is_valid_num_shape: "is_valid_num (Some s) = decimal_body (dropWhile isspace s)"
  by (simp add: is_valid_num_def num_scan_shape decimal_body_def skip_whitespace_dropWhile)

text \<open>
  Claim C6 as stated allows trailing white space: the text \<^verbatim>\<open>"1 "\<close> is a well-formed
  decimal in that sense and is not classified Numeric.
\<close>

theorem trailing_space_not_numeric:
  "well_formed_decimal ''1 '' \<and> \<not> is_valid_num (Some ''1 '')"
  by (simp add: well_formed_decimal_def decimal_body_def is_valid_num_def ctype_defs)

subsection \<open>The operand count (C7)\<close>

text \<open>
  Claim C7: a formula that passes the grammar check and whose scan collects the operands
  \<open>stack\<close> and counts \<open>opc\<close> operators evaluates when the number of operands is
  \<open>opc + 1\<close> and fails with ArityMismatch otherwise. For a formula written as tokens
  with its references inside the grid, these numbers are the numbers of operand tokens
  and of \<^verbatim>\<open>+\<close> tokens. In a grid that has the cells A1 and B2, \<^verbatim>\<open>=A1+\<close> and
  \<^verbatim>\<open>=A1 B2\<close> fail with ArityMismatch.
\<close>

theorem operand_count_decides:
  assumes "env_ok env"
  shows "(\<forall>t stack opc. is_valid_formula t \<longrightarrow>
            scan_formula env sh t [] 0 = Some (Inr (stack, opc)) \<longrightarrow>
            parse_and_calculate_formula env sh t =
              (if length stack = opc + 1 then Some (Inr (drain env stack (dzero env)))
               else Some (Inl ArityMismatch)))
    \<and> (\<forall>ts k. separated ts \<longrightarrow> list_all (operand_ok env) (operands ts) \<longrightarrow>
          parse_and_calculate_formula env sh (replicate k (CHR '' '') @ CHR ''='' # render ts) =
            (if length (operands ts) = plus_count ts + 1
             then Some (Inr (drain env (rev (map (operand_value env sh) (operands ts)))
                              (dzero env)))
             else Some (Inl ArityMismatch)))
    \<and> (2 \<le> NUM_ROWS env \<longrightarrow> 2 \<le> NUM_COLS env \<longrightarrow>
          parse_and_calculate_formula env sh ''=A1+'' = Some (Inl ArityMismatch)
          \<and> parse_and_calculate_formula env sh ''=A1 B2'' = Some (Inl ArityMismatch))"
proof (intro conjI allI impI)
  fix t stack opc
  assume "is_valid_formula t" "scan_formula env sh t [] 0 = Some (Inr (stack, opc))"
  then show "parse_and_calculate_formula env sh t =
      (if length stack = opc + 1 then Some (Inr (drain env stack (dzero env)))
       else Some (Inl ArityMismatch))"
    by (simp add: parse_and_calculate_formula_def)
next
  fix ts k
  assume "separated ts" "list_all (operand_ok env) (operands ts)"
  with assms show "parse_and_calculate_formula env sh
        (replicate k (CHR '' '') @ CHR ''='' # render ts) =
      (if length (operands ts) = plus_count ts + 1
       then Some (Inr (drain env (rev (map (operand_value env sh) (operands ts))) (dzero env)))
       else Some (Inl ArityMismatch))"
    by (rule parse_rendered)
next
  let ?A1 = "Reference (CHR ''A'') ''1''" and ?B2 = "Reference (CHR ''B'') ''2''"
  assume dims: "2 \<le> NUM_ROWS env" "2 \<le> NUM_COLS env"
  then have ok: "operand_ok env ?A1" "operand_ok env ?B2"
    by (simp_all add: operand_ok_def ctype_defs decimal_value_def)
  from parse_rendered [OF assms, of "[(0, Operand ?A1), (0, Plus)]" sh 0] ok
  show "parse_and_calculate_formula env sh ''=A1+'' = Some (Inl ArityMismatch)" by simp
  from parse_rendered [OF assms, of "[(0, Operand ?A1), (1, Operand ?B2)]" sh 0] ok
  show "parse_and_calculate_formula env sh ''=A1 B2'' = Some (Inl ArityMismatch)" by simp
qed

text \<open>
  The two examples of the claim, a formula whose second \<^verbatim>\<open>+\<close> belongs to the exponent
  of a literal, and a formula that evaluates, on the empty grid.
\<close>

theorem operand_count_decides_witness:
  "env_ok env0 \<and> (2::nat) \<le> NUM_ROWS env0 \<and> (2::nat) \<le> NUM_COLS env0
   \<and> parse_and_calculate_formula env0 (sheet (init_state env0)) ''=A1+'' = Some (Inl ArityMismatch)
   \<and> parse_and_calculate_formula env0 (sheet (init_state env0)) ''=A1 B2'' = Some (Inl ArityMismatch)
   \<and> is_valid_formula ''=1E+5+''
   \<and> scan_formula env0 (sheet (init_state env0)) ''=1E+5+'' [] 0 = Some (Inr ([100000], 1))
   \<and> parse_and_calculate_formula env0 (sheet (init_state env0)) ''=1E+5+'' = Some (Inl ArityMismatch)
   \<and> parse_and_calculate_formula env0 (sheet (init_state env0)) ''=A1+B2'' = Some (Inr 0)"
proof -
  let ?sh = "sheet (init_state env0)"
  let ?A1 = "Reference (CHR ''A'') ''1''" and ?B2 = "Reference (CHR ''B'') ''2''"
  have e: "env_ok env0" by (simp add: env_ok_def env0_def)
  have d: "(2::nat) \<le> NUM_ROWS env0" "(2::nat) \<le> NUM_COLS env0" by (simp_all add: env0_def)
  have v: "is_valid_formula ''=1E+5+''" by (simp add: is_valid_formula_def ctype_defs)
  have s: "scan_formula env0 ?sh ''=1E+5+'' [] 0 = Some (Inr ([100000], 1))"
    by (simp add: run_defs)
  have ok: "separated [(0, Operand ?A1), (0, Plus), (0, Operand ?B2)]"
    "list_all (operand_ok env0) (operands [(0, Operand ?A1), (0, Plus), (0, Operand ?B2)])"
    by (simp_all add: operand_ok_def env0_def ctype_defs decimal_value_def)
  note th = operand_count_decides [OF e, of ?sh]
  from th [THEN conjunct1, rule_format, OF v s]
    th [THEN conjunct2, THEN conjunct1, rule_format, OF ok, of 0]
    th [THEN conjunct2, THEN conjunct2, rule_format, OF d]
    e d v s show ?thesis
    by (simp add: init_state_def env0_def)
qed

subsection \<open>The sum of the operands (C5)\<close>

text \<open>
  Claim C5, as the code has it: for every formula \<^verbatim>\<open>= operand + ... + operand\<close> of the
  grammar, with blanks allowed before each token, whose cell references all lie inside
  the grid, evaluation returns the operands added to 0, the last operand first. A decimal
  literal contributes the value \<^verbatim>\<open>strtod\<close> gives it; a reference, its column letter
  mapped from A to column 0 and its row number less 1, contributes the field \<open>numVal\<close>
  of the referenced cell, not its string.
\<close>

theorem sum_of_operands:
  assumes "env_ok env" and "operand_ok env x" and "list_all (\<lambda>(a, b, y). operand_ok env y) rest"
  shows "parse_and_calculate_formula env sh
           (replicate k (CHR '' '') @ CHR ''='' # render (sum_tokens (n, x) rest)) =
         Some (Inr (foldl (dadd env) (dzero env)
           (rev (map (operand_value env sh) (x # map (\<lambda>(a, b, y). y) rest)))))"
proof -
  have "list_all (operand_ok env) (map (\<lambda>(a, b, y). y) rest)"
    using assms(3) by (induction rest) auto
  then have "list_all (operand_ok env) (operands (sum_tokens (n, x) rest))"
    using assms(2) by (simp add: sum_tokens_facts)
  from parse_rendered [OF assms(1) _ this, of sh k] show ?thesis
    by (simp add: sum_tokens_facts drain_foldl)
qed

text \<open>
  The formula \<^verbatim>\<open> =A1 + B2+1.5\<close> on a sheet whose cells all hold the string
  \<^verbatim>\<open>7\<close>, with value 5 in A1 and 4 in B2.
\<close>

theorem sum_of_operands_witness:
  "env_ok env0
   \<and> operand_ok env0 (Reference (CHR ''A'') ''1'')
   \<and> operand_ok env0 (Reference (CHR ''B'') ''2'')
   \<and> operand_ok env0 (Literal ''1.5'')
   \<and> parse_and_calculate_formula env0
        (\<lambda>i j. \<lparr>type = num, numVal = (if i = 0 \<and> j = 0 then 5 else if i = 1 \<and> j = 1 then 4 else 0),
                strVal = Some ''7''\<rparr>)
        '' =A1 + B2+1.5'' = Some (Inr (21 / 2))"
proof -
  let ?sh = "\<lambda>i j :: nat. \<lparr>type = num,
    numVal = (if i = 0 \<and> j = 0 then 5 else if i = 1 \<and> j = 1 then 4 else 0 :: rat),
    strVal = Some ''7''\<rparr>"
  let ?A1 = "Reference (CHR ''A'') ''1''" and ?B2 = "Reference (CHR ''B'') ''2''"
  have e: "env_ok env0" by (simp add: env_ok_def env0_def)
  have ok: "operand_ok env0 ?A1" "operand_ok env0 ?B2" "operand_ok env0 (Literal ''1.5'')"
    by (simp_all add: operand_ok_def decimal_body_def env0_def ctype_defs decimal_value_def)
  have oks: "list_all (\<lambda>(a, b, y). operand_ok env0 y) [(1, 1, ?B2), (0, 0, Literal ''1.5'')]"
    using ok by simp
  have v: "strtod_val env0 ''1.5'' = 3 / 2" by (simp add: run_defs)
  have z: "dzero env0 = 0" "dadd env0 = (+)" by (simp_all add: env0_def)
  from sum_of_operands [OF e ok(1) oks, of ?sh 1 0] e ok show ?thesis
    by (simp add: v z decimal_value_def)
qed

text \<open>
  Claim C5 as stated covers every syntactically valid formula: \<^verbatim>\<open>=A99\<close> is one, and
  in the grid of 4 rows its evaluation fails (line 284) instead of returning a sum.
\<close>

theorem reference_outside_grid_fails:
  "operand_syntax (Reference (CHR ''A'') ''99'')
   \<and> replicate 0 (CHR '' '') @ CHR ''='' # render (sum_tokens (0, Reference (CHR ''A'') ''99'') [])
       = ''=A99''
   \<and> parse_and_calculate_formula env0 (sheet (init_state env0)) ''=A99'' = Some (Inl OutOfRange)"
  by (simp add: run_defs)

subsection \<open>Lowercase letters (C9)\<close>

text \<open>
  Claim C9: a text that contains a lowercase letter fails the formula grammar check, the
  evaluator refuses it with InvalidFormulaSyntax before scanning, and a write of it stores
  the text as a Text cell.
\<close>

theorem lowercase_letter_rejected:
  assumes "c \<in> set t" and "islower c"
  shows "\<not> is_valid_formula t
    \<and> parse_and_calculate_formula env sh t = Some (Inl InvalidFormulaSyntax)
    \<and> (reachable env st \<longrightarrow>
         (\<exists>st'. set_cell_value env st row col (Some t) = Some (Inr st')
            \<and> type (sheet st' row col) = str \<and> strVal (sheet st' row col) = Some t
            \<and> last (display st') = (row, col, t)))"
proof (intro conjI impI)
  show nf: "\<not> is_valid_formula t" using assms by (rule lower_invalid_formula)
  then show "parse_and_calculate_formula env sh t = Some (Inl InvalidFormulaSyntax)"
    by (simp add: parse_and_calculate_formula_def)
  assume "reachable env st"
  then have "formulas_ok env (set_string_value env st row col t)"
    by (simp add: reachable_formulas_ok formulas_ok_set_string)
  from finish_write_ok [OF this, of row col t] obtain st' where
    st': "finish_write env (set_string_value env st row col t) row col t = Some (Inr st')"
      "sheet st' row col = sheet (set_string_value env st row col t) row col"
      "last (display st') = (row, col, t)" by blast
  have "t \<noteq> []" using assms(1) by auto
  then have "set_cell_value env st row col (Some t) = Some (Inr st')"
    using st'(1) nf lower_invalid_num [OF assms] by (simp add: set_cell_value_text)
  moreover have "type (sheet st' row col) = str \<and> strVal (sheet st' row col) = Some t"
    using st'(2) by (simp add: set_string_value_def sheet_put_cell)
  ultimately show "\<exists>st'. set_cell_value env st row col (Some t) = Some (Inr st')
      \<and> type (sheet st' row col) = str \<and> strVal (sheet st' row col) = Some t
      \<and> last (display st') = (row, col, t)"
    using st'(3) by blast
qed

text \<open>The example of the claim, \<^verbatim>\<open>=A1+b2\<close>, written to cell A1 of the empty grid.\<close>

theorem lowercase_letter_rejected_witness:
  "CHR ''b'' \<in> set ''=A1+b2'' \<and> islower (CHR ''b'') \<and> \<not> is_valid_formula ''=A1+b2''
   \<and> parse_and_calculate_formula env0 (sheet (init_state env0)) ''=A1+b2''
        = Some (Inl InvalidFormulaSyntax)
   \<and> reachable env0 (init_state env0)
   \<and> (\<exists>st'. set_cell_value env0 (init_state env0) 0 0 (Some ''=A1+b2'') = Some (Inr st')
        \<and> type (sheet st' 0 0) = str \<and> strVal (sheet st' 0 0) = Some ''=A1+b2''
        \<and> last (display st') = (0, 0, ''=A1+b2''))"
proof -
  have b: "CHR ''b'' \<in> set ''=A1+b2''" "islower (CHR ''b'')" by (simp_all add: islower_def)
  have r: "reachable env0 (init_state env0)" by (rule reachable.at_start)
  from lowercase_letter_rejected [OF b, of env0 "sheet (init_state env0)" "init_state env0" 0 0]
    b r show ?thesis by simp
qed

subsection \<open>A formula that fails to evaluate (C8)\<close>

text \<open>
  Claim C8: when the written text passes the formula grammar and its evaluation fails, for
  whichever reason, the write returns normally, the display is notified with the marker
  \<^verbatim>\<open>ERROR\<close> for the written cell, and the cell's stored type is Text (\<open>str\<close>).
  The string stored in the cell remains the written text.
\<close>

theorem failed_formula_shows_error:
  assumes "reachable env st" and "row < NUM_ROWS env" and "col < NUM_COLS env"
    and "is_valid_formula t"
    and "parse_and_calculate_formula env (sheet (set_string_value env st row col t)) t
           = Some (Inl e)"
  shows "\<exists>st'. set_cell_value env st row col (Some t) = Some (Inr st')
    \<and> last (display st') = (row, col, ''ERROR'')
    \<and> type (sheet st' row col) = str
    \<and> strVal (sheet st' row col) = Some t"
proof -
  let ?st2 = "set_string_value env st row col t"
  have "formulas_ok env ?st2"
    using assms(1) by (simp add: reachable_formulas_ok formulas_ok_set_string)
  from finish_write_ok [OF this, of row col "''ERROR''"] obtain st' where
    st': "finish_write env ?st2 row col ''ERROR'' = Some (Inr st')"
      "sheet st' row col = sheet ?st2 row col"
      "last (display st') = (row, col, ''ERROR'')" by blast
  have "set_cell_value env st row col (Some t) = Some (Inr st')"
    using st'(1) assms(4,5) by (simp add: set_cell_value_formula)
  moreover have "type (sheet st' row col) = str \<and> strVal (sheet st' row col) = Some t"
    using st'(2) by (simp add: set_string_value_def sheet_put_cell)
  ultimately show ?thesis using st'(3) by blast
qed

text \<open>A reference outside the grid, \<^verbatim>\<open>=Z99\<close>, written to cell A1 of the empty grid.\<close>

theorem failed_formula_shows_error_witness:
  "reachable env0 (init_state env0) \<and> (0::nat) < NUM_ROWS env0 \<and> (0::nat) < NUM_COLS env0
   \<and> is_valid_formula ''=Z99''
   \<and> parse_and_calculate_formula env0
        (sheet (set_string_value env0 (init_state env0) 0 0 ''=Z99'')) ''=Z99''
        = Some (Inl OutOfRange)
   \<and> (\<exists>st'. set_cell_value env0 (init_state env0) 0 0 (Some ''=Z99'') = Some (Inr st')
        \<and> last (display st') = (0, 0, ''ERROR'') \<and> type (sheet st' 0 0) = str
        \<and> strVal (sheet st' 0 0) = Some ''=Z99'')"
proof -
  have r: "reachable env0 (init_state env0)" by (rule reachable.at_start)
  have d: "(0::nat) < NUM_ROWS env0" "(0::nat) < NUM_COLS env0" by (simp_all add: env0_def)
  have v: "is_valid_formula ''=Z99''" by (simp add: is_valid_formula_def ctype_defs)
  have p: "parse_and_calculate_formula env0
      (sheet (set_string_value env0 (init_state env0) 0 0 ''=Z99'')) ''=Z99''
      = Some (Inl OutOfRange)"
    by (simp add: run_defs)
  from failed_formula_shows_error [OF r d v p] r d v p show ?thesis by simp
qed

subsection \<open>A formula that evaluates (C2)\<close>

text \<open>
  Claim C2, as the code has it: when the written text passes the formula grammar and
  evaluates to \<open>r\<close>, the write returns with the written cell of type Formula
  (\<open>eqn\<close>), holding the formula text as its string, and the display is notified with the
  formatted result for the written cell. The evaluation sees the written cell as Text
  with value 0.
\<close>

theorem formula_write_keeps_formula_type:
  assumes "reachable env st" and "row < NUM_ROWS env" and "col < NUM_COLS env"
    and "is_valid_formula t"
    and "parse_and_calculate_formula env (sheet (set_string_value env st row col t)) t
           = Some (Inr r)"
  shows "\<exists>st'. set_cell_value env st row col (Some t) = Some (Inr st')
    \<and> type (sheet st' row col) = eqn
    \<and> strVal (sheet st' row col) = Some t
    \<and> last (display st') = (row, col, lg_format env r)"
proof -
  let ?st2 = "set_string_value env st row col t"
  let ?st3 = "put_cell ?st2 row col ((sheet ?st2 row col)\<lparr>type := eqn\<rparr>)"
  have "formulas_ok env ?st2"
    using assms(1) by (simp add: reachable_formulas_ok formulas_ok_set_string)
  moreover have "evaluates env t" using assms(5) by (rule evaluatesI)
  ultimately have "formulas_ok env ?st3"
    by (intro formulas_ok_put_eqn [where f = t])
       (simp_all add: set_string_value_def sheet_put_cell)
  from finish_write_ok [OF this, of row col "lg_format env r"] obtain st' where
    st': "finish_write env ?st3 row col (lg_format env r) = Some (Inr st')"
      "sheet st' row col = sheet ?st3 row col"
      "last (display st') = (row, col, lg_format env r)" by blast
  have "set_cell_value env st row col (Some t) = Some (Inr st')"
    using st'(1) assms(4,5) by (simp add: set_cell_value_formula)
  moreover have "type (sheet st' row col) = eqn \<and> strVal (sheet st' row col) = Some t"
    using st'(2) by (simp add: set_string_value_def sheet_put_cell)
  ultimately show ?thesis using st'(3) by blast
qed

text \<open>The formula \<^verbatim>\<open>=1+2\<close> written to cell A1 of the empty grid.\<close>

theorem formula_write_keeps_formula_type_witness:
  "reachable env0 (init_state env0) \<and> (0::nat) < NUM_ROWS env0 \<and> (0::nat) < NUM_COLS env0
   \<and> is_valid_formula ''=1+2''
   \<and> parse_and_calculate_formula env0
        (sheet (set_string_value env0 (init_state env0) 0 0 ''=1+2'')) ''=1+2'' = Some (Inr 3)
   \<and> (\<exists>st'. set_cell_value env0 (init_state env0) 0 0 (Some ''=1+2'') = Some (Inr st')
        \<and> type (sheet st' 0 0) = eqn \<and> strVal (sheet st' 0 0) = Some ''=1+2''
        \<and> last (display st') = (0, 0, ''3''))"
proof -
  have r: "reachable env0 (init_state env0)" by (rule reachable.at_start)
  have d: "(0::nat) < NUM_ROWS env0" "(0::nat) < NUM_COLS env0" by (simp_all add: env0_def)
  have v: "is_valid_formula ''=1+2''" by (simp add: is_valid_formula_def ctype_defs)
  have p: "parse_and_calculate_formula env0
        (sheet (set_string_value env0 (init_state env0) 0 0 ''=1+2'')) ''=1+2'' = Some (Inr 3)"
    by (simp add: run_defs)
  have f: "lg_format env0 3 = ''3''" by (simp add: env0_def exact_format_def)
  from formula_write_keeps_formula_type [OF r d v p] r d v p f show ?thesis by simp
qed

text \<open>
  Claim C2 as stated says that the cell is Numeric when the write returns, with the result
  as its value and the formatted result as its text. After writing \<^verbatim>\<open>=1+2\<close> the
  cell is not Numeric, its value is not 3 and its string is not \<^verbatim>\<open>3\<close>.
\<close>

theorem formula_write_not_numeric:
  "is_valid_formula ''=1+2''
   \<and> parse_and_calculate_formula env0
        (sheet (set_string_value env0 (init_state env0) 0 0 ''=1+2'')) ''=1+2'' = Some (Inr 3)
   \<and> (\<exists>st'. set_cell_value env0 (init_state env0) 0 0 (Some ''=1+2'') = Some (Inr st')
        \<and> type (sheet st' 0 0) \<noteq> num \<and> numVal (sheet st' 0 0) \<noteq> 3
        \<and> strVal (sheet st' 0 0) \<noteq> Some (lg_format env0 3))"
  by (simp add: run_defs)

subsection \<open>A failed recalculation (C10)\<close>

text \<open>
  Claim C10: when the re-evaluation of a formula cell fails, the recalculation step leaves
  the whole sheet as it was (type, formula text and value of the cell included) and only
  appends the notification \<^verbatim>\<open>ERROR\<close> for the cell; and a recalculation pass that
  starts in such a state and returns leaves that cell as it was.
\<close>

theorem failed_recalculation_keeps_cell:
  assumes "type (sheet st i j) = eqn" and "strVal (sheet st i j) = Some f"
    and "parse_and_calculate_formula env (sheet st) f = Some (Inl e)"
  shows "update_cell_value env st i j = Some (Inr (st\<lparr>display := display st @ [(i, j, ''ERROR'')]\<rparr>))
    \<and> (\<forall>row col ps st'. update_cells env row col ps st = Some (Inr st') \<longrightarrow>
          sheet st' i j = sheet st i j)"
  using assms update_cells_keeps_failing [OF _ assms]
  by (simp add: update_cell_value_def update_cell_display_def)

text \<open>A cell of type \<open>eqn\<close> with value 7 that holds the formula \<^verbatim>\<open>=A1+\<close>.\<close>

theorem failed_recalculation_keeps_cell_witness:
  "type (sheet (put_cell (init_state env0) 0 0
       \<lparr>type = eqn, numVal = 7, strVal = Some ''=A1+''\<rparr>) 0 0) = eqn
   \<and> parse_and_calculate_formula env0
        (sheet (put_cell (init_state env0) 0 0
           \<lparr>type = eqn, numVal = 7, strVal = Some ''=A1+''\<rparr>)) ''=A1+''
        = Some (Inl ArityMismatch)
   \<and> (\<exists>st'. update_cell_value env0
          (put_cell (init_state env0) 0 0
             \<lparr>type = eqn, numVal = 7, strVal = Some ''=A1+''\<rparr>) 0 0 = Some (Inr st')
        \<and> sheet st' 0 0 = \<lparr>type = eqn, numVal = 7, strVal = Some ''=A1+''\<rparr>
        \<and> display st' = [(0, 0, ''ERROR'')])"
proof -
  let ?st = "put_cell (init_state env0) 0 0
    \<lparr>type = eqn, numVal = 7 :: rat, strVal = Some ''=A1+''\<rparr>"
  have t: "type (sheet ?st 0 0) = eqn" and s: "strVal (sheet ?st 0 0) = Some ''=A1+''"
    by (simp_all add: put_cell_def)
  have p: "parse_and_calculate_formula env0 (sheet ?st) ''=A1+'' = Some (Inl ArityMismatch)"
    by (simp add: run_defs)
  from failed_recalculation_keeps_cell [OF t s p] t p show ?thesis
    by (simp add: put_cell_def init_state_def)
qed

subsection \<open>A plain number leaves the cell without a string (C1)\<close>

text \<open>
  Claim C1 fails in the code: writing the plain number \<^verbatim>\<open>5\<close> to cell A1 of the empty
  grid leaves a Numeric cell whose string pointer is null (line 209), and
  \<^verbatim>\<open>get_textual_value\<close> then reads through it (line 423).
\<close>

theorem number_write_null_string:
  "\<exists>st. set_cell_value env0 (init_state env0) 0 0 (Some ''5'') = Some (Inr st)
     \<and> type (sheet st 0 0) = num \<and> strVal (sheet st 0 0) = None
     \<and> get_textual_value st 0 0 = Inl NullRead"
  by (simp add: run_defs)

subsection \<open>Recalculation of a formula cell (C3, C4)\<close>

text \<open>
  Claim C4 fails in the code: with \<^verbatim>\<open>1\<close> in A1 and \<^verbatim>\<open>=A1\<close> in B1, writing
  \<^verbatim>\<open>2\<close> to A1 recalculates B1 to the value 2, and the display is notified for B1
  with the formula text \<^verbatim>\<open>=A1\<close> (line 327), not with the formatted result
  \<^verbatim>\<open>2\<close>.
\<close>

theorem recalculation_displays_formula_text:
  "\<exists>st1 st2 st3.
     set_cell_value env0 (init_state env0) 0 0 (Some ''1'') = Some (Inr st1)
   \<and> set_cell_value env0 st1 0 1 (Some ''=A1'') = Some (Inr st2)
   \<and> set_cell_value env0 st2 0 0 (Some ''2'') = Some (Inr st3)
   \<and> display st3 = [(0, 0, ''1''), (0, 1, ''1''), (0, 1, ''=A1''), (0, 0, ''2'')]
   \<and> numVal (sheet st3 0 1) = 2 \<and> lg_format env0 2 = ''2''"
  by (simp add: run_defs)

text \<open>
  Claim C3 fails in the code: the recalculation that succeeds turns B1 into a Numeric cell
  (line 326), so the next write, of \<^verbatim>\<open>3\<close> to A1, does not re-evaluate B1: its value
  stays 2 and the display gets no notification for it, although the cell still holds the
  formula text.
\<close>

theorem recalculation_happens_once:
  "\<exists>st1 st2 st3 st4.
     set_cell_value env0 (init_state env0) 0 0 (Some ''1'') = Some (Inr st1)
   \<and> set_cell_value env0 st1 0 1 (Some ''=A1'') = Some (Inr st2)
   \<and> set_cell_value env0 st2 0 0 (Some ''2'') = Some (Inr st3)
   \<and> set_cell_value env0 st3 0 0 (Some ''3'') = Some (Inr st4)
   \<and> strVal (sheet st4 0 1) = Some ''=A1'' \<and> type (sheet st4 0 1) = num
   \<and> numVal (sheet st4 0 0) = 3 \<and> numVal (sheet st4 0 1) = 2
   \<and> display st4 = display st3 @ [(0, 0, ''3'')]"
  by (simp add: run_defs)

end
